(* ===== verification/Tbore_Base.thy ===== *)
theory Tbore_Base
  imports Main "HOL-Library.Word"
begin

text \<open>
  What every component of the development shares: the machine integers of Go as the code uses
  them, decimal and hexadecimal printing (\<open>%d\<close>, \<open>%x\<close>) with its inverse, list and map lemmas,
  and the generic contracts of a component with state (\<open>event_machine\<close>, \<open>simulation\<close>,
  \<open>transition_system\<close>) that the components' theories interpret.
\<close>

named_theorems session_simps \<open>what the handlers of a server session leave alone\<close>

section \<open>Machine integers and byte strings\<close>

text \<open>Go's \<open>int\<close>, \<open>int64\<close> and \<open>time.Duration\<close> are 64-bit two's complement: \<open>int64 x\<close> is what is
  left of the mathematical value \<open>x\<close> after the wrap-around.\<close>

type_synonym u32 = "32 word"
type_synonym gotime = int  \<comment> \<open>\<open>time.Time\<close>: nanoseconds since Go's zero time; \<open>0\<close> is \<open>time.Time{}\<close>\<close>
type_synonym duration = int  \<comment> \<open>\<open>time.Duration\<close> in nanoseconds\<close>

definition int64 :: "int \<Rightarrow> int" where
  "int64 x = (x + 2 ^ 63) mod 2 ^ 64 - 2 ^ 63"

abbreviation max_int64 :: int where
  "max_int64 \<equiv> 9223372036854775807"

abbreviation second :: duration where
  "second \<equiv> 1000000000"

lemma int64_id: "- 9223372036854775808 \<le> x \<Longrightarrow> x \<le> max_int64 \<Longrightarrow> int64 x = x"
  unfolding int64_def by (subst mod_pos_pos_trivial) auto

lemma int64_nonneg_id [simp]: "0 \<le> x \<Longrightarrow> x \<le> max_int64 \<Longrightarrow> int64 x = x"
  by (rule int64_id) auto

lemma int64_range: "- 9223372036854775808 \<le> int64 x \<and> int64 x \<le> max_int64"
proof -
  have "0 \<le> (x + 2 ^ 63) mod 2 ^ 64" "(x + 2 ^ 63) mod 2 ^ 64 < (2 ^ 64 :: int)"
    by (simp_all only: pos_mod_sign pos_mod_bound zero_less_power zero_less_numeral)
  then show ?thesis unfolding int64_def by simp
qed

text \<open>A number of seconds as a \<open>time.Duration\<close>, \<open>time.Duration(n) * time.Second\<close>: the product wraps.\<close>

definition seconds :: "int \<Rightarrow> duration" where
  "seconds n = int64 (n * second)"

lemma seconds_id: "0 \<le> n \<Longrightarrow> n * second \<le> max_int64 \<Longrightarrow> seconds n = n * second"
  by (simp add: seconds_def)

lemma unat_bound: "unat (w :: 'a::len word) < 2 ^ LENGTH('a)"
  by (rule unsigned_less)

section \<open>Printing numbers\<close>

fun base_digits :: "nat \<Rightarrow> nat \<Rightarrow> nat list" where
  "base_digits b n = (if b < 2 \<or> n < b then [n] else base_digits b (n div b) @ [n mod b])"

declare base_digits.simps [simp del]

definition base_value :: "nat \<Rightarrow> nat list \<Rightarrow> nat" where
  "base_value b ds = foldl (\<lambda>acc d. acc * b + d) 0 ds"

definition digit_char :: "nat \<Rightarrow> char" where
  "digit_char d = (if d < 10 then char_of (48 + d) else char_of (87 + d))"

definition dec_of_nat :: "nat \<Rightarrow> string" where
  "dec_of_nat n = map digit_char (base_digits 10 n)"

definition dec_of_int :: "int \<Rightarrow> string" where
  "dec_of_int i = (if i < 0 then CHR ''-'' # dec_of_nat (nat (- i)) else dec_of_nat (nat i))"

definition hex_of_nat :: "nat \<Rightarrow> string" where
  "hex_of_nat n = map digit_char (base_digits 16 n)"

lemma base_value_digits: "base_value b (base_digits b n) = n"
proof (induction b n rule: base_digits.induct)
  case (1 b n)
  then show ?case
    by (cases "b < 2 \<or> n < b") (simp_all add: base_digits.simps [of b n] base_value_def)
qed

lemma base_digits_nonempty [simp]: "base_digits b n \<noteq> []"
  by (subst base_digits.simps) simp

lemma base_digits_bound: "2 \<le> b \<Longrightarrow> d \<in> set (base_digits b n) \<Longrightarrow> d < b"
proof (induction b n rule: base_digits.induct)
  case (1 b n)
  then show ?case
    by (cases "n < b") (auto simp: base_digits.simps [of b n])
qed

lemma digit_char_inj:
  assumes "d < 16" "e < 16" "digit_char d = digit_char e"
  shows "d = e"
proof -
  have "of_char (digit_char d) = (of_char (digit_char e) :: nat)"
    using assms(3) by simp
  then show ?thesis
    using assms(1,2) by (auto simp: digit_char_def split: if_splits)
qed

lemma map_digit_char_inj:
  assumes "\<And>d. d \<in> set xs \<Longrightarrow> d < 16" "\<And>d. d \<in> set ys \<Longrightarrow> d < 16"
    and "map digit_char xs = map digit_char ys"
  shows "xs = ys"
  using assms by (intro map_inj_on [OF assms(3)]) (auto simp: inj_on_def intro: digit_char_inj)

lemma hex_of_nat_inj: "hex_of_nat m = hex_of_nat n \<Longrightarrow> m = n"
proof -
  assume "hex_of_nat m = hex_of_nat n"
  then have "base_digits 16 m = base_digits 16 n"
    unfolding hex_of_nat_def by (rule map_digit_char_inj [rotated 2]) (auto dest: base_digits_bound [rotated])
  then show "m = n" by (metis base_value_digits)
qed

lemma dec_of_nat_inj: "dec_of_nat m = dec_of_nat n \<Longrightarrow> m = n"
proof -
  assume "dec_of_nat m = dec_of_nat n"
  moreover have "\<And>k d. d \<in> set (base_digits 10 k) \<Longrightarrow> d < 16"
    using base_digits_bound [of 10] by fastforce
  ultimately have "base_digits 10 m = base_digits 10 n"
    unfolding dec_of_nat_def by (intro map_digit_char_inj) auto
  then show "m = n" by (metis base_value_digits)
qed

text \<open>What \<open>fmt.Sscanf(s, "%d", &p)\<close> stores for a non-negative number: the leading decimal digits,
  nothing (\<open>None\<close>) when there are none.\<close>

definition is_digit :: "char \<Rightarrow> bool" where
  "is_digit c \<longleftrightarrow> 48 \<le> (of_char c :: nat) \<and> (of_char c :: nat) \<le> 57"

definition digit_val :: "char \<Rightarrow> nat" where
  "digit_val c = of_char c - 48"

definition scan_dec :: "string \<Rightarrow> nat option" where
  "scan_dec s = (case takeWhile is_digit s of [] \<Rightarrow> None | ds \<Rightarrow> Some (base_value 10 (map digit_val ds)))"

lemma is_digit_digit_char: "d < 10 \<Longrightarrow> is_digit (digit_char d)"
  by (simp add: is_digit_def digit_char_def)

lemma digit_val_char: "d < 10 \<Longrightarrow> digit_val (digit_char d) = d"
  by (simp add: digit_val_def digit_char_def)

lemma dec_of_nat_digits: "c \<in> set (dec_of_nat n) \<Longrightarrow> is_digit c"
  by (auto simp: dec_of_nat_def intro: is_digit_digit_char dest: base_digits_bound [rotated])

lemma dec_of_nat_nonempty [simp]: "dec_of_nat n \<noteq> []"
  by (simp add: dec_of_nat_def)

lemma scan_dec_of_nat: "scan_dec (dec_of_nat n) = Some n"
proof -
  have "takeWhile is_digit (dec_of_nat n) = dec_of_nat n"
    by (rule takeWhile_eq_all_conv [THEN iffD2]) (simp add: dec_of_nat_digits)
  moreover have "map digit_val (dec_of_nat n) = base_digits 10 n"
    unfolding dec_of_nat_def map_map
    by (rule map_idI) (auto simp: digit_val_char dest: base_digits_bound [rotated])
  ultimately show ?thesis
    by (cases "dec_of_nat n") (auto simp: scan_dec_def base_value_digits)
qed

section \<open>Contracts of components with state\<close>

text \<open>A deterministic component: one step per event, and an invariant every step on an admissible
  event keeps.\<close>

locale event_machine =
  fixes step :: "'s \<Rightarrow> 'e \<Rightarrow> 's"
    and ok :: "'e \<Rightarrow> bool"
    and inv :: "'s \<Rightarrow> bool"
  assumes step_inv: "inv s \<Longrightarrow> ok e \<Longrightarrow> inv (step s e)"
begin

lemma run_inv: "inv s \<Longrightarrow> list_all ok es \<Longrightarrow> inv (foldl step s es)"
  by (induction es arbitrary: s) (auto intro: step_inv)

end

text \<open>A component that implements an abstract one: \<open>abs\<close> commutes with the steps.\<close>

locale simulation = event_machine step ok inv
  for step :: "'s \<Rightarrow> 'e \<Rightarrow> 's" and ok :: "'e \<Rightarrow> bool" and inv :: "'s \<Rightarrow> bool" +
  fixes abs :: "'s \<Rightarrow> 'a"
    and astep :: "'a \<Rightarrow> 'e \<Rightarrow> 'a"
  assumes step_abs: "inv s \<Longrightarrow> ok e \<Longrightarrow> abs (step s e) = astep (abs s) e"
begin

lemma run_abs: "inv s \<Longrightarrow> list_all ok es \<Longrightarrow> abs (foldl step s es) = foldl astep (abs s) es"
  by (induction es arbitrary: s) (auto simp: step_abs step_inv)

end

text \<open>A component with interleaving: a step relation, and an invariant of its reachable states.\<close>

locale transition_system =
  fixes init :: "'s \<Rightarrow> bool"
    and trans :: "'s \<Rightarrow> 's \<Rightarrow> bool"
    and inv :: "'s \<Rightarrow> bool"
  assumes init_inv: "init s \<Longrightarrow> inv s"
    and trans_inv: "inv s \<Longrightarrow> trans s t \<Longrightarrow> inv t"
begin

lemma steps_inv: "trans\<^sup>*\<^sup>* s t \<Longrightarrow> inv s \<Longrightarrow> inv t"
  by (induction rule: rtranclp_induct) (auto intro: trans_inv)

lemma reachable_inv: "init s \<Longrightarrow> trans\<^sup>*\<^sup>* s t \<Longrightarrow> inv t"
  by (rule steps_inv) (auto intro: init_inv)

end

section \<open>Lists and maps\<close>

lemma foldl_filter_irrelevant:
  assumes skip: "\<And>s e. \<not> P e \<Longrightarrow> f (step s e) = f s"
    and cong: "\<And>s t e. P e \<Longrightarrow> f s = f t \<Longrightarrow> f (step s e) = f (step t e)"
  shows "f s = f t \<Longrightarrow> f (foldl step s es) = f (foldl step t (filter P es))"
proof (induction es arbitrary: s t)
  case Nil
  then show ?case by simp
next
  case (Cons e es)
  show ?case
  proof (cases "P e")
    case True
    have "f (step s e) = f (step t e)" by (rule cong [OF True Cons.prems])
    from Cons.IH [OF this] True show ?thesis by simp
  next
    case False
    have "f (step s e) = f t" by (rule trans [OF skip [OF False] Cons.prems])
    from Cons.IH [OF this] False show ?thesis by simp
  qed
qed

lemma int_length_remove1: "x \<in> set xs \<Longrightarrow> int (length (remove1 x xs)) = int (length xs) - 1"
  by (induction xs) auto

lemma eq_value_imp_eq_key: "distinct (map snd xs) \<Longrightarrow> (k, v) \<in> set xs \<Longrightarrow> (k', v) \<in> set xs \<Longrightarrow> k = k'"
  using eq_key_imp_eq_value [of "map prod.swap xs" v k k'] by (force simp: comp_def)

lemma map_of_filter_keys:
  "map_of (filter (\<lambda>p. P (fst p)) xs) k = (if P k then map_of xs k else None)"
  by (induction xs) auto

end
