(* ===== verification/Config.thy ===== *)
theory Config
  imports Tbore_Base
begin

text \<open>
  \<open>src/pkg/config\<close>: the server's and the client's configuration, their defaults, their validation
  and the port range check. A Go \<open>int\<close> field is an \<open>int\<close> (the code only compares them), a
  \<open>uint32\<close> port a 32-bit word. Reading the file is \<open>os.ReadFile\<close>'s result (\<open>None\<close> for an error);
  the YAML decoder is third-party code and a parameter of the load functions.
\<close>

section \<open>Errors (errors.go)\<close>

datatype config_error =
    ErrTokenRequired
  | ErrInvalidPortRange
  | ErrInvalidMaxConnections
  | ErrInvalidMaxTunnels
  | ErrServerAddrRequired
  | ErrServerPortRequired
  | ErrTunnelNameRequired
  | ErrTunnelLocalIPRequired
  | ErrTunnelLocalPortRequired
  | ErrInvalidAuthMaxFailures
  | ErrInvalidAuthBlockDuration
  | ErrInvalidAuthLRUSize
  | ErrInvalidAuthCleanInterval
  | ErrInvalidAuthRecordTTL

fun error_text :: "config_error \<Rightarrow> string" where
  "error_text ErrTokenRequired = ''token is required''"
| "error_text ErrInvalidPortRange = ''invalid port range''"
| "error_text ErrInvalidMaxConnections = ''max_connections must be greater than 0''"
| "error_text ErrInvalidMaxTunnels = ''max_tunnels_per_client must be greater than 0''"
| "error_text ErrServerAddrRequired = ''server_addr is required''"
| "error_text ErrServerPortRequired = ''server_port is required''"
| "error_text ErrTunnelNameRequired = ''tunnel name is required''"
| "error_text ErrTunnelLocalIPRequired = ''tunnel local_ip is required''"
| "error_text ErrTunnelLocalPortRequired = ''tunnel local_port is required''"
| "error_text ErrInvalidAuthMaxFailures = ''auth_max_failures must be greater than 0''"
| "error_text ErrInvalidAuthBlockDuration = ''auth_block_duration must be greater than 0''"
| "error_text ErrInvalidAuthLRUSize = ''auth_lru_size must be greater than 0''"
| "error_text ErrInvalidAuthCleanInterval = ''auth_clean_interval must be greater than 0''"
| "error_text ErrInvalidAuthRecordTTL = ''auth_record_ttl must be greater than 0''"

text \<open>The errors in the order errors.go declares them. The server's checks run in this order, so
  the error it reports is the least one that applies.\<close>

fun error_rank :: "config_error \<Rightarrow> nat" where
  "error_rank ErrTokenRequired = 0"
| "error_rank ErrInvalidPortRange = 1"
| "error_rank ErrInvalidMaxConnections = 2"
| "error_rank ErrInvalidMaxTunnels = 3"
| "error_rank ErrServerAddrRequired = 4"
| "error_rank ErrServerPortRequired = 5"
| "error_rank ErrTunnelNameRequired = 6"
| "error_rank ErrTunnelLocalIPRequired = 7"
| "error_rank ErrTunnelLocalPortRequired = 8"
| "error_rank ErrInvalidAuthMaxFailures = 9"
| "error_rank ErrInvalidAuthBlockDuration = 10"
| "error_rank ErrInvalidAuthLRUSize = 11"
| "error_rank ErrInvalidAuthCleanInterval = 12"
| "error_rank ErrInvalidAuthRecordTTL = 13"

lemma error_rank_inj: "error_rank e = error_rank f \<Longrightarrow> e = f"
  by (cases e; cases f) simp_all

instantiation config_error :: linorder
begin

definition less_eq_config_error :: "config_error \<Rightarrow> config_error \<Rightarrow> bool" where
  "less_eq_config_error e f \<longleftrightarrow> error_rank e \<le> error_rank f"

definition less_config_error :: "config_error \<Rightarrow> config_error \<Rightarrow> bool" where
  "less_config_error e f \<longleftrightarrow> error_rank e < error_rank f"

instance
  by intro_classes (auto simp: less_eq_config_error_def less_config_error_def intro: error_rank_inj)

end

section \<open>The configuration records (config.go)\<close>

abbreviation DefaultMinPort :: u32 where "DefaultMinPort \<equiv> 1024"
abbreviation DefaultMaxPort :: u32 where "DefaultMaxPort \<equiv> 65535"
abbreviation DefaultMaxConns :: int where "DefaultMaxConns \<equiv> 100"
abbreviation DefaultMaxTunnels :: int where "DefaultMaxTunnels \<equiv> 10"
abbreviation DefaultControlPort :: int where "DefaultControlPort \<equiv> 7835"
abbreviation DefaultHealthCheckInterval :: int where "DefaultHealthCheckInterval \<equiv> 30"
abbreviation DefaultAuthMaxFailures :: int where "DefaultAuthMaxFailures \<equiv> 3"
abbreviation DefaultAuthBlockDuration :: int where "DefaultAuthBlockDuration \<equiv> 600"
abbreviation DefaultAuthLRUSize :: int where "DefaultAuthLRUSize \<equiv> 1000"
abbreviation DefaultAuthDBPath :: string where "DefaultAuthDBPath \<equiv> ''data/auth.db''"
abbreviation DefaultAuthCleanInterval :: int where "DefaultAuthCleanInterval \<equiv> 60"
abbreviation DefaultAuthRecordTTL :: int where "DefaultAuthRecordTTL \<equiv> 86400"

record TunnelConfig =
  tc_Name :: string
  tc_LocalIP :: string
  tc_LocalPort :: int
  tc_RemotePort :: u32
  tc_Timeout :: int

record ServerConfig =
  sc_Port :: int
  sc_Token :: string
  sc_MinPort :: u32
  sc_MaxPort :: u32
  sc_MaxConnections :: int
  sc_MaxTunnels :: int
  sc_BindAddr :: string
  sc_HostKeyPath :: string
  sc_MaxConnsPerTunnel :: int
  sc_AuthDisabled :: bool
  sc_AuthMaxFailures :: int
  sc_AuthBlockDuration :: int
  sc_AuthLRUSize :: int
  sc_AuthBlockDBPath :: string
  sc_AuthCleanInterval :: int
  sc_AuthRecordTTL :: int

record ClientConfig =
  cc_ServerAddr :: string
  cc_ServerPort :: int
  cc_Token :: string
  cc_HostKey :: string
  cc_Project :: string
  cc_Region :: string
  cc_Tunnels :: "TunnelConfig list"
  cc_HealthCheckInterval :: int

section \<open>Defaults\<close>

definition client_setDefaults :: "ClientConfig \<Rightarrow> ClientConfig" where
  "client_setDefaults cfg =
     (if cc_HealthCheckInterval cfg \<le> 0
      then cfg\<lparr>cc_HealthCheckInterval := DefaultHealthCheckInterval\<rparr> else cfg)"

text \<open>The assignments of \<open>(cfg *ServerConfig) setDefaults\<close>: each field reads only itself, but
  \<open>MaxConnsPerTunnel\<close>, which copies \<open>MaxConnections\<close> after that one got its default.\<close>

definition server_setDefaults :: "ServerConfig \<Rightarrow> ServerConfig" where
  "server_setDefaults cfg =
     (let maxConnections = (if sc_MaxConnections cfg = 0 then DefaultMaxConns else sc_MaxConnections cfg)
      in cfg\<lparr>
        sc_Port := (if sc_Port cfg = 0 then DefaultControlPort else sc_Port cfg),
        sc_MinPort := (if sc_MinPort cfg = 0 then DefaultMinPort else sc_MinPort cfg),
        sc_MaxPort := (if sc_MaxPort cfg = 0 then DefaultMaxPort else sc_MaxPort cfg),
        sc_MaxConnections := maxConnections,
        sc_MaxTunnels := (if sc_MaxTunnels cfg = 0 then DefaultMaxTunnels else sc_MaxTunnels cfg),
        sc_MaxConnsPerTunnel :=
          (if sc_MaxConnsPerTunnel cfg = 0 then maxConnections else sc_MaxConnsPerTunnel cfg),
        sc_BindAddr := (if sc_BindAddr cfg = '''' then ''0.0.0.0'' else sc_BindAddr cfg),
        sc_AuthMaxFailures :=
          (if sc_AuthMaxFailures cfg = 0 then DefaultAuthMaxFailures else sc_AuthMaxFailures cfg),
        sc_AuthBlockDuration :=
          (if sc_AuthBlockDuration cfg = 0 then DefaultAuthBlockDuration else sc_AuthBlockDuration cfg),
        sc_AuthLRUSize := (if sc_AuthLRUSize cfg = 0 then DefaultAuthLRUSize else sc_AuthLRUSize cfg),
        sc_AuthCleanInterval :=
          (if sc_AuthCleanInterval cfg = 0 then DefaultAuthCleanInterval else sc_AuthCleanInterval cfg),
        sc_AuthRecordTTL :=
          (if sc_AuthRecordTTL cfg = 0 then DefaultAuthRecordTTL else sc_AuthRecordTTL cfg)\<rparr>)"

text \<open>The defaulted configuration, field by field.\<close>

lemma server_setDefaults_fields:
  "sc_Port (server_setDefaults c) = (if sc_Port c = 0 then DefaultControlPort else sc_Port c)"
  "sc_Token (server_setDefaults c) = sc_Token c"
  "sc_MinPort (server_setDefaults c) = (if sc_MinPort c = 0 then DefaultMinPort else sc_MinPort c)"
  "sc_MaxPort (server_setDefaults c) = (if sc_MaxPort c = 0 then DefaultMaxPort else sc_MaxPort c)"
  "sc_MaxConnections (server_setDefaults c) =
     (if sc_MaxConnections c = 0 then DefaultMaxConns else sc_MaxConnections c)"
  "sc_MaxTunnels (server_setDefaults c) =
     (if sc_MaxTunnels c = 0 then DefaultMaxTunnels else sc_MaxTunnels c)"
  "sc_MaxConnsPerTunnel (server_setDefaults c) =
     (if sc_MaxConnsPerTunnel c = 0
      then (if sc_MaxConnections c = 0 then DefaultMaxConns else sc_MaxConnections c)
      else sc_MaxConnsPerTunnel c)"
  "sc_BindAddr (server_setDefaults c) = (if sc_BindAddr c = '''' then ''0.0.0.0'' else sc_BindAddr c)"
  "sc_HostKeyPath (server_setDefaults c) = sc_HostKeyPath c"
  "sc_AuthDisabled (server_setDefaults c) = sc_AuthDisabled c"
  "sc_AuthMaxFailures (server_setDefaults c) =
     (if sc_AuthMaxFailures c = 0 then DefaultAuthMaxFailures else sc_AuthMaxFailures c)"
  "sc_AuthBlockDuration (server_setDefaults c) =
     (if sc_AuthBlockDuration c = 0 then DefaultAuthBlockDuration else sc_AuthBlockDuration c)"
  "sc_AuthLRUSize (server_setDefaults c) =
     (if sc_AuthLRUSize c = 0 then DefaultAuthLRUSize else sc_AuthLRUSize c)"
  "sc_AuthBlockDBPath (server_setDefaults c) = sc_AuthBlockDBPath c"
  "sc_AuthCleanInterval (server_setDefaults c) =
     (if sc_AuthCleanInterval c = 0 then DefaultAuthCleanInterval else sc_AuthCleanInterval c)"
  "sc_AuthRecordTTL (server_setDefaults c) =
     (if sc_AuthRecordTTL c = 0 then DefaultAuthRecordTTL else sc_AuthRecordTTL c)"
  by (simp_all add: server_setDefaults_def Let_def)

section \<open>Loading\<close>

text \<open>\<open>file\<close> is what \<open>os.ReadFile\<close> returned, \<open>yaml\<close> the decoder's result on a zero-valued struct.\<close>

datatype load_error = ReadError | YamlError

definition LoadServerConfig ::
  "(string \<Rightarrow> ServerConfig option) \<Rightarrow> string option \<Rightarrow> load_error + ServerConfig" where
  "LoadServerConfig yaml file =
     (case file of None \<Rightarrow> Inl ReadError
      | Some data \<Rightarrow>
          (case yaml data of None \<Rightarrow> Inl YamlError
           | Some cfg \<Rightarrow> Inr (server_setDefaults cfg)))"

definition LoadClientConfig ::
  "(string \<Rightarrow> ClientConfig option) \<Rightarrow> string option \<Rightarrow> load_error + ClientConfig" where
  "LoadClientConfig yaml file =
     (case file of None \<Rightarrow> Inl ReadError
      | Some data \<Rightarrow>
          (case yaml data of None \<Rightarrow> Inl YamlError
           | Some cfg \<Rightarrow> Inr (client_setDefaults cfg)))"

section \<open>Validation\<close>

definition server_Validate :: "ServerConfig \<Rightarrow> config_error option" where
  "server_Validate cfg =
     (if sc_Token cfg = '''' then Some ErrTokenRequired
      else if sc_MinPort cfg > sc_MaxPort cfg then Some ErrInvalidPortRange
      else if sc_MaxConnections cfg \<le> 0 then Some ErrInvalidMaxConnections
      else if sc_MaxTunnels cfg \<le> 0 then Some ErrInvalidMaxTunnels
      else if \<not> sc_AuthDisabled cfg then
        (if sc_AuthMaxFailures cfg \<le> 0 then Some ErrInvalidAuthMaxFailures
         else if sc_AuthBlockDuration cfg \<le> 0 then Some ErrInvalidAuthBlockDuration
         else if sc_AuthLRUSize cfg \<le> 0 then Some ErrInvalidAuthLRUSize
         else if sc_AuthCleanInterval cfg \<le> 0 then Some ErrInvalidAuthCleanInterval
         else if sc_AuthRecordTTL cfg \<le> 0 then Some ErrInvalidAuthRecordTTL
         else None)
      else None)"

definition IsValidPort :: "ServerConfig \<Rightarrow> u32 \<Rightarrow> bool" where
  "IsValidPort cfg port =
     (if port = 0 then True else port \<ge> sc_MinPort cfg \<and> port \<le> sc_MaxPort cfg)"

text \<open>The client's errors: a sentinel, or one wrapped by \<open>fmt.Errorf("tunnel[%d]: %w", ...)\<close> with
  the tunnel's index and, once it is known to be non-empty, its name.\<close>

datatype client_error =
    Plain config_error
  | TunnelAt nat config_error
  | NamedTunnelAt nat string config_error

fun check_tunnels :: "nat \<Rightarrow> TunnelConfig list \<Rightarrow> client_error option" where
  "check_tunnels i [] = None"
| "check_tunnels i (t # ts) =
     (if tc_Name t = '''' then Some (TunnelAt i ErrTunnelNameRequired)
      else if tc_LocalIP t = '''' then Some (NamedTunnelAt i (tc_Name t) ErrTunnelLocalIPRequired)
      else if tc_LocalPort t = 0 then Some (NamedTunnelAt i (tc_Name t) ErrTunnelLocalPortRequired)
      else check_tunnels (Suc i) ts)"

definition client_Validate :: "ClientConfig \<Rightarrow> client_error option" where
  "client_Validate cfg =
     (if cc_ServerAddr cfg = '''' then Some (Plain ErrServerAddrRequired)
      else if cc_ServerPort cfg = 0 then Some (Plain ErrServerPortRequired)
      else if cc_Token cfg = '''' then Some (Plain ErrTokenRequired)
      else check_tunnels 0 (cc_Tunnels cfg))"

text \<open>The text of a client error, as the two \<open>Errorf\<close> formats write it.\<close>

fun client_error_text :: "client_error \<Rightarrow> string" where
  "client_error_text (Plain e) = error_text e"
| "client_error_text (TunnelAt i e) =
     ''tunnel['' @ dec_of_nat i @ '']: '' @ error_text e"
| "client_error_text (NamedTunnelAt i n e) =
     ''tunnel['' @ dec_of_nat i @ ''] ('' @ n @ ''): '' @ error_text e"

section \<open>What validation means\<close>

text \<open>The set of the server's requirements that a configuration violates, each with its error.\<close>

definition violations :: "ServerConfig \<Rightarrow> config_error set" where
  "violations cfg =
     {e. (e = ErrTokenRequired \<and> sc_Token cfg = [])
       \<or> (e = ErrInvalidPortRange \<and> unat (sc_MaxPort cfg) < unat (sc_MinPort cfg))
       \<or> (e = ErrInvalidMaxConnections \<and> sc_MaxConnections cfg < 1)
       \<or> (e = ErrInvalidMaxTunnels \<and> sc_MaxTunnels cfg < 1)
       \<or> (e = ErrInvalidAuthMaxFailures \<and> \<not> sc_AuthDisabled cfg \<and> sc_AuthMaxFailures cfg < 1)
       \<or> (e = ErrInvalidAuthBlockDuration \<and> \<not> sc_AuthDisabled cfg \<and> sc_AuthBlockDuration cfg < 1)
       \<or> (e = ErrInvalidAuthLRUSize \<and> \<not> sc_AuthDisabled cfg \<and> sc_AuthLRUSize cfg < 1)
       \<or> (e = ErrInvalidAuthCleanInterval \<and> \<not> sc_AuthDisabled cfg \<and> sc_AuthCleanInterval cfg < 1)
       \<or> (e = ErrInvalidAuthRecordTTL \<and> \<not> sc_AuthDisabled cfg \<and> sc_AuthRecordTTL cfg < 1)}"

lemma error_rank_bound: "error_rank e \<le> 13"
  by (cases e) simp_all

lemma finite_violations: "finite (violations cfg)"
proof (rule finite_imageD)
  show "finite (error_rank ` violations cfg)"
    by (rule finite_subset [of _ "{..13}"]) (auto simp: error_rank_bound)
  show "inj_on error_rank (violations cfg)"
    by (rule inj_onI) (rule error_rank_inj)
qed

lemma least_violation:
  assumes "e \<in> violations cfg" "\<And>f. f \<in> violations cfg \<Longrightarrow> error_rank e \<le> error_rank f"
  shows "violations cfg \<noteq> {} \<and> Min (violations cfg) = e"
  using assms by (auto intro!: Min_eqI finite_violations simp: less_eq_config_error_def)

text \<open>(C39) Server configuration errors are complete and precise: \<open>Validate\<close> accepts exactly the
  configurations that violate no requirement, and otherwise reports the first violated
  requirement, in the order errors.go declares them.\<close>

theorem server_Validate_first_violation:
  "server_Validate cfg =
     (if violations cfg = {} then None else Some (Min (violations cfg)))"
proof (cases "server_Validate cfg")
  case None
  then have "violations cfg = {}"
    by (auto simp: server_Validate_def violations_def word_less_nat_alt split: if_splits)
  with None show ?thesis by simp
next
  case (Some e)
  then have "e \<in> violations cfg"
    by (auto simp: server_Validate_def violations_def word_less_nat_alt split: if_splits)
  moreover have "error_rank e \<le> error_rank f" if "f \<in> violations cfg" for f
    using Some that by (auto simp: server_Validate_def violations_def word_less_nat_alt split: if_splits)
  ultimately have "violations cfg \<noteq> {} \<and> Min (violations cfg) = e"
    by (rule least_violation)
  with Some show ?thesis by simp
qed

lemma server_Validate_None:
  "server_Validate cfg = None \<longleftrightarrow>
     sc_Token cfg \<noteq> '''' \<and> sc_MinPort cfg \<le> sc_MaxPort cfg \<and>
     0 < sc_MaxConnections cfg \<and> 0 < sc_MaxTunnels cfg \<and>
     (sc_AuthDisabled cfg \<or>
       0 < sc_AuthMaxFailures cfg \<and> 0 < sc_AuthBlockDuration cfg \<and> 0 < sc_AuthLRUSize cfg \<and>
       0 < sc_AuthCleanInterval cfg \<and> 0 < sc_AuthRecordTTL cfg)"
  by (simp add: server_Validate_def not_less not_le)

lemma default_positive: "0 < d \<Longrightarrow> 0 < (if x = 0 then d else x) \<longleftrightarrow> 0 \<le> x" for x d :: int
  by auto

lemma default_port: "unat (if p = 0 then d else p) = (if p = 0 then unat d else unat p)" for p d :: u32
  by simp

text \<open>Zero configuration is safe: a loaded configuration that sets nothing but a token is
  accepted with the brute-force protection on; in general a configuration is accepted after the
  defaults exactly when it has a token, an ordered port range and no negative limit (the
  protection's limits count only while it is enabled).\<close>

theorem server_defaults_accepted:
  "server_Validate (server_setDefaults c) = None \<longleftrightarrow>
     sc_Token c \<noteq> '''' \<and>
     (if sc_MinPort c = 0 then 1024 else unat (sc_MinPort c))
       \<le> (if sc_MaxPort c = 0 then 65535 else unat (sc_MaxPort c)) \<and>
     0 \<le> sc_MaxConnections c \<and> 0 \<le> sc_MaxTunnels c \<and>
     (sc_AuthDisabled c \<or>
       0 \<le> sc_AuthMaxFailures c \<and> 0 \<le> sc_AuthBlockDuration c \<and> 0 \<le> sc_AuthLRUSize c \<and>
       0 \<le> sc_AuthCleanInterval c \<and> 0 \<le> sc_AuthRecordTTL c)"
  unfolding server_Validate_None server_setDefaults_fields word_le_nat_alt default_port
  by (simp only: default_positive zero_less_numeral) simp

lemma server_setDefaults_idem:
  "server_setDefaults (server_setDefaults c) = server_setDefaults c"
  by (rule ServerConfig.equality; (simp only: server_setDefaults_fields)?; simp)

text \<open>The port check: besides port 0 (the operating system chooses), exactly the ports of the
  configured range are allowed; with the minimum left to its default no privileged port is.\<close>

theorem IsValidPort_range:
  "IsValidPort cfg port \<longleftrightarrow>
     unat port = 0 \<or> unat port \<in> {unat (sc_MinPort cfg)..unat (sc_MaxPort cfg)}"
  by (auto simp: IsValidPort_def word_le_nat_alt unat_eq_zero)

lemma default_range_not_privileged:
  "sc_MinPort c = 0 \<Longrightarrow> IsValidPort (server_setDefaults c) port \<Longrightarrow> port \<noteq> 0 \<Longrightarrow> 1024 \<le> unat port"
  by (auto simp: IsValidPort_def server_setDefaults_fields word_le_nat_alt)

text \<open>What one tunnel of the client's list must have.\<close>

definition tunnel_ok :: "TunnelConfig \<Rightarrow> bool" where
  "tunnel_ok t \<longleftrightarrow> tc_Name t \<noteq> [] \<and> tc_LocalIP t \<noteq> [] \<and> tc_LocalPort t \<noteq> 0"

fun client_error_index :: "client_error \<Rightarrow> nat option" where
  "client_error_index (Plain e) = None"
| "client_error_index (TunnelAt i e) = Some i"
| "client_error_index (NamedTunnelAt i n e) = Some i"

lemma check_tunnels_None: "check_tunnels i ts = None \<longleftrightarrow> list_all tunnel_ok ts"
  by (induction ts arbitrary: i) (auto simp: tunnel_ok_def)

lemma check_tunnels_first_bad:
  "check_tunnels i ts = Some e \<Longrightarrow>
     client_error_index e = Some (i + length (takeWhile tunnel_ok ts))"
  by (induction ts arbitrary: i) (auto simp: tunnel_ok_def split: if_splits)


text \<open>A loaded client configuration has a positive health check interval.\<close>

lemma LoadClientConfig_interval:
  "LoadClientConfig yaml file = Inr cfg \<Longrightarrow> 0 < cc_HealthCheckInterval cfg"
  by (auto simp: LoadClientConfig_def client_setDefaults_def split: option.splits if_splits)

lemma LoadServerConfig_defaults:
  "LoadServerConfig yaml file = Inr cfg \<Longrightarrow> server_setDefaults cfg = cfg"
  by (auto simp: LoadServerConfig_def server_setDefaults_idem split: option.splits)

text \<open>The configuration of the README's example, for concrete runs.\<close>

definition demo_scfg :: ServerConfig where
  "demo_scfg = server_setDefaults
     \<lparr>sc_Port = 0, sc_Token = ''secret'', sc_MinPort = 0, sc_MaxPort = 0, sc_MaxConnections = 0, sc_MaxTunnels = 0,
      sc_BindAddr = '''', sc_HostKeyPath = ''host_key'', sc_MaxConnsPerTunnel = 0, sc_AuthDisabled = False,
      sc_AuthMaxFailures = 0, sc_AuthBlockDuration = 0, sc_AuthLRUSize = 0, sc_AuthBlockDBPath = '''',
      sc_AuthCleanInterval = 0, sc_AuthRecordTTL = 0\<rparr>"

lemma demo_scfg_simp:
  "demo_scfg =
     \<lparr>sc_Port = 7835, sc_Token = ''secret'', sc_MinPort = 1024, sc_MaxPort = 65535, sc_MaxConnections = 100,
      sc_MaxTunnels = 10, sc_BindAddr = ''0.0.0.0'', sc_HostKeyPath = ''host_key'', sc_MaxConnsPerTunnel = 100,
      sc_AuthDisabled = False, sc_AuthMaxFailures = 3, sc_AuthBlockDuration = 600, sc_AuthLRUSize = 1000,
      sc_AuthBlockDBPath = '''', sc_AuthCleanInterval = 60, sc_AuthRecordTTL = 86400\<rparr>"
  by (simp add: demo_scfg_def server_setDefaults_def)

end
