(* ===== verification/Net_Address.thy ===== *)
theory Net_Address
  imports Tbore_Base
begin

text \<open>
  Addresses: \<open>net.SplitHostPort\<close> and \<open>net.JoinHostPort\<close> of Go's standard library, as the program
  uses them (a TCP address prints itself with \<open>JoinHostPort\<close>), and \<open>ExtractIP\<close> of
  \<open>src/pkg/auth/blocker.go\<close>, which turns a peer's address into the key of the blacklist.
\<close>

fun index_of :: "char \<Rightarrow> string \<Rightarrow> nat option" where
  "index_of c [] = None"
| "index_of c (x # xs) = (if x = c then Some 0 else map_option Suc (index_of c xs))"

fun last_index_of :: "char \<Rightarrow> string \<Rightarrow> nat option" where
  "last_index_of c [] = None"
| "last_index_of c (x # xs) =
     (case last_index_of c xs of
        Some i \<Rightarrow> Some (Suc i)
      | None \<Rightarrow> if x = c then Some 0 else None)"

datatype addr_error =
    MissingPort
  | TooManyColons
  | MissingBracket
  | UnexpectedOpen
  | UnexpectedClose

definition SplitHostPort :: "string \<Rightarrow> addr_error + (string \<times> string)" where
  "SplitHostPort hostport =
     (case last_index_of (CHR '':'') hostport of
        None \<Rightarrow> Inl MissingPort
      | Some i \<Rightarrow>
          (let finish = (\<lambda>host j k.
                 if CHR ''['' \<in> set (drop j hostport) then Inl UnexpectedOpen
                 else if CHR '']'' \<in> set (drop k hostport) then Inl UnexpectedClose
                 else Inr (host, drop (Suc i) hostport))
           in if take 1 hostport = ''['' then
                (case index_of (CHR '']'') hostport of
                   None \<Rightarrow> Inl MissingBracket
                 | Some e \<Rightarrow>
                     if Suc e = length hostport then Inl MissingPort
                     else if Suc e = i then finish (take (e - 1) (drop 1 hostport)) 1 (Suc e)
                     else if take 1 (drop (Suc e) hostport) = '':'' then Inl TooManyColons
                     else Inl MissingPort)
              else if CHR '':'' \<in> set (take i hostport) then Inl TooManyColons
              else finish (take i hostport) 0 0))"

definition JoinHostPort :: "string \<Rightarrow> string \<Rightarrow> string" where
  "JoinHostPort host port =
     (if CHR '':'' \<in> set host then ''['' @ host @ '']:'' @ port else host @ '':'' @ port)"

definition ExtractIP :: "string \<Rightarrow> string" where
  "ExtractIP remoteAddr =
     (case SplitHostPort remoteAddr of Inl _ \<Rightarrow> remoteAddr | Inr (host, _) \<Rightarrow> host)"

lemma index_of_append [simp]: "c \<notin> set xs \<Longrightarrow> index_of c (xs @ c # ys) = Some (length xs)"
  by (induction xs) auto

lemma last_index_of_None [simp]: "c \<notin> set xs \<Longrightarrow> last_index_of c xs = None"
  by (induction xs) auto

lemma last_index_of_append [simp]: "c \<notin> set ys \<Longrightarrow> last_index_of c (xs @ c # ys) = Some (length xs)"
  by (induction xs) auto

lemma SplitHostPort_plain:
  assumes "set host \<inter> set '':[]'' = {}" "set port \<inter> set '':[]'' = {}"
  shows "SplitHostPort (host @ '':'' @ port) = Inr (host, port)"
proof -
  have "take 1 (host @ '':'' @ port) \<noteq> ''[''"
    using assms(1) by (cases host) auto
  then show ?thesis
    using assms by (auto simp: SplitHostPort_def Let_def)
qed

lemma SplitHostPort_bracketed:
  assumes "set host \<inter> set ''[]'' = {}" "set port \<inter> set '':[]'' = {}"
  shows "SplitHostPort (''['' @ host @ '']:'' @ port) = Inr (host, port)"
proof -
  let ?s = "''['' @ host @ '']:'' @ port"
  have "last_index_of (CHR '':'') ((''['' @ host @ '']'') @ CHR '':'' # port) = Some (Suc (Suc (length host)))"
    using assms(2) by (subst last_index_of_append) auto
  moreover have "index_of (CHR '']'') ((''['' @ host) @ CHR '']'' # '':'' @ port) = Some (Suc (length host))"
    using assms(1) by (subst index_of_append) auto
  ultimately show ?thesis
    using assms by (auto simp: SplitHostPort_def Let_def)
qed

lemma SplitHostPort_Join:
  assumes "set host \<inter> set ''[]'' = {}" "set port \<inter> set '':[]'' = {}"
  shows "SplitHostPort (JoinHostPort host port) = Inr (host, port)"
  using SplitHostPort_plain [of host port] SplitHostPort_bracketed [OF assms] assms
  by (auto simp: JoinHostPort_def)

lemma dec_not_special: "set (dec_of_nat n) \<inter> set '':[]'' = {}"
  using dec_of_nat_digits [of _ n] by (fastforce simp: is_digit_def)

text \<open>The blacklist's key of a TCP peer is its IP address, for IPv4 and (bracketed) IPv6
  addresses alike and whatever its port: the connections of one host share one record and those
  of two hosts never do.\<close>

theorem ExtractIP_peer:
  assumes "set host \<inter> set ''[]'' = {}"
  shows "ExtractIP (JoinHostPort host (dec_of_nat port)) = host"
  by (simp add: ExtractIP_def SplitHostPort_Join [OF assms dec_not_special])

theorem ExtractIP_peer_witness:
  "ExtractIP (JoinHostPort ''2001:db8::1'' (dec_of_nat 50123)) = ''2001:db8::1''"
  by (rule ExtractIP_peer) simp

lemma ExtractIP_no_port: "CHR '':'' \<notin> set s \<Longrightarrow> ExtractIP s = s"
  by (simp add: ExtractIP_def SplitHostPort_def)

text \<open>What the server reads from a listener's address: the port (\<open>Sscanf\<close> of the part after the
  colon into a \<open>uint32\<close> that starts at 0; a listener's port has at most 16 bits).\<close>

definition port_of_addr :: "string \<Rightarrow> u32" where
  "port_of_addr addr =
     (case SplitHostPort addr of
        Inl _ \<Rightarrow> 0
      | Inr (_, portStr) \<Rightarrow>
          (case scan_dec portStr of
             None \<Rightarrow> 0
           | Some n \<Rightarrow> if n < 2 ^ 32 then of_nat n else 0))"

lemma port_of_addr_Join:
  assumes "set host \<inter> set ''[]'' = {}"
  shows "port_of_addr (JoinHostPort host (dec_of_nat (unat p))) = p"
proof -
  have "unat p < 4294967296" using unat_bound [of p] by simp
  then show ?thesis
    by (simp add: port_of_addr_def SplitHostPort_Join [OF assms dec_not_special] scan_dec_of_nat)
qed

end
