(* ===== verification/Authenticator.thy ===== *)
theory Authenticator
  imports Tbore_Base
begin

unbundle bit_operations_syntax

text \<open>
  \<open>src/pkg/auth/authenticator.go\<close>: the token's challenge-response scheme, with the functions of
  Go's standard library it calls: SHA-256 (FIPS 180-4), HMAC (RFC 2104) and hexadecimal encoding.
  A Go string is a \<open>string\<close> (its bytes), a byte slice a list of 8-bit words.
\<close>

type_synonym bytes = "8 word list"

definition bytes_of :: "string \<Rightarrow> bytes" where
  "bytes_of s = map (\<lambda>c. word_of_nat (of_char c)) s"

section \<open>crypto/sha256\<close>

text \<open>The 64 round constants (the first 32 bits of the fractional parts of the cube roots of the first
  64 primes) and the initial state, in decimal.\<close>

definition sha_K :: "32 word list" where
  "sha_K =
    [1116352408, 1899447441, 3049323471, 3921009573, 961987163, 1508970993, 2453635748,
     2870763221, 3624381080, 310598401, 607225278, 1426881987, 1925078388, 2162078206,
     2614888103, 3248222580, 3835390401, 4022224774, 264347078, 604807628, 770255983,
     1249150122, 1555081692, 1996064986, 2554220882, 2821834349, 2952996808, 3210313671,
     3336571891, 3584528711, 113926993, 338241895, 666307205, 773529912, 1294757372,
     1396182291, 1695183700, 1986661051, 2177026350, 2456956037, 2730485921, 2820302411,
     3259730800, 3345764771, 3516065817, 3600352804, 4094571909, 275423344, 430227734,
     506948616, 659060556, 883997877, 958139571, 1322822218, 1537002063, 1747873779,
     1955562222, 2024104815, 2227730452, 2361852424, 2428436474, 2756734187, 3204031479,
     3329325298]"

type_synonym sha_state =
  "32 word \<times> 32 word \<times> 32 word \<times> 32 word \<times> 32 word \<times> 32 word \<times> 32 word \<times> 32 word"

definition sha_H0 :: sha_state where
  "sha_H0 = (1779033703, 3144134277, 1013904242, 2773480762, 1359893119, 2600822924, 528734635, 1541459225)"

definition be32 :: "8 word \<Rightarrow> 8 word \<Rightarrow> 8 word \<Rightarrow> 8 word \<Rightarrow> 32 word" where
  "be32 a b c d =
     push_bit 24 (ucast a) OR push_bit 16 (ucast b) OR push_bit 8 (ucast c) OR ucast d"

definition be_bytes :: "32 word \<Rightarrow> bytes" where
  "be_bytes w =
     [ucast (drop_bit 24 w), ucast (drop_bit 16 w), ucast (drop_bit 8 w), ucast w]"

text \<open>Padding: a 1 bit, zeros to 56 modulo 64 bytes, the length in bits as 64 bits.\<close>

definition sha_pad :: "bytes \<Rightarrow> bytes" where
  "sha_pad m =
     (let bits = 8 * length m
      in m @ [0x80] @ replicate ((119 - length m mod 64) mod 64) 0
           @ be_bytes (word_of_nat (bits div 2 ^ 32)) @ be_bytes (word_of_nat bits))"

fun be_words :: "bytes \<Rightarrow> 32 word list" where
  "be_words (a # b # c # d # rest) = be32 a b c d # be_words rest"
| "be_words _ = []"

text \<open>The message schedule, newest word first: \<open>w\<^sub>t\<close> from \<open>w\<^sub>t\<^sub>-\<^sub>2\<close>, \<open>w\<^sub>t\<^sub>-\<^sub>7\<close>, \<open>w\<^sub>t\<^sub>-\<^sub>1\<^sub>5\<close>, \<open>w\<^sub>t\<^sub>-\<^sub>1\<^sub>6\<close>.\<close>

fun sha_extend :: "nat \<Rightarrow> 32 word list \<Rightarrow> 32 word list" where
  "sha_extend 0 ws = ws"
| "sha_extend (Suc n) ws =
     (let w2 = ws ! 1; w15 = ws ! 14;
          s0 = word_rotr 7 w15 XOR word_rotr 18 w15 XOR drop_bit 3 w15;
          s1 = word_rotr 17 w2 XOR word_rotr 19 w2 XOR drop_bit 10 w2
      in sha_extend n ((s1 + ws ! 6 + s0 + ws ! 15) # ws))"

fun sha_round :: "sha_state \<Rightarrow> 32 word \<times> 32 word \<Rightarrow> sha_state" where
  "sha_round (a, b, c, d, e, f, g, h) (k, w) =
     (let t1 = h + (word_rotr 6 e XOR word_rotr 11 e XOR word_rotr 25 e)
               + ((e AND f) XOR (NOT e AND g)) + k + w;
          t2 = (word_rotr 2 a XOR word_rotr 13 a XOR word_rotr 22 a)
               + ((a AND b) XOR (a AND c) XOR (b AND c))
      in (t1 + t2, a, b, c, d + t1, e, f, g))"

fun sha_add :: "sha_state \<Rightarrow> sha_state \<Rightarrow> sha_state" where
  "sha_add (a, b, c, d, e, f, g, h) (a', b', c', d', e', f', g', h') =
     (a + a', b + b', c + c', d + d', e + e', f + f', g + g', h + h')"

definition sha_block :: "sha_state \<Rightarrow> bytes \<Rightarrow> sha_state" where
  "sha_block st blk =
     sha_add st (foldl sha_round st (zip sha_K (rev (sha_extend 48 (rev (be_words blk))))))"

function sha_blocks :: "sha_state \<Rightarrow> bytes \<Rightarrow> sha_state" where
  "sha_blocks st m = (if m = [] then st else sha_blocks (sha_block st (take 64 m)) (drop 64 m))"
  by pat_completeness auto
termination
  by (relation "measure (\<lambda>(st, m). length m)") auto

declare sha_blocks.simps [simp del]

fun sha_digest :: "sha_state \<Rightarrow> bytes" where
  "sha_digest (a, b, c, d, e, f, g, h) =
     be_bytes a @ be_bytes b @ be_bytes c @ be_bytes d @ be_bytes e @ be_bytes f @ be_bytes g @ be_bytes h"

definition sha256 :: "bytes \<Rightarrow> bytes" where
  "sha256 m = sha_digest (sha_blocks sha_H0 (sha_pad m))"

lemma length_sha_digest [simp]: "length (sha_digest st) = 32"
  by (induction st rule: sha_digest.induct) (simp add: be_bytes_def)

lemma length_sha256 [simp]: "length (sha256 m) = 32"
  by (simp add: sha256_def)

lemma sha_pad_blocks: "length (sha_pad m) mod 64 = 0"
proof -
  have pad: "(n + 9 + (119 - n mod 64) mod 64) mod 64 = 0" for n :: nat
  proof -
    have "n mod 64 < 64" by simp
    then have "(n mod 64 + 9 + (119 - n mod 64) mod 64) mod 64 = (0 :: nat)"
      by (simp add: mod_add_right_eq)
    then show ?thesis by (metis mod_add_left_eq)
  qed
  show ?thesis
    using pad [of "length m"] by (simp add: sha_pad_def be_bytes_def Let_def ac_simps)
qed

section \<open>crypto/hmac, encoding/hex\<close>

definition hmac_sha256 :: "bytes \<Rightarrow> bytes \<Rightarrow> bytes" where
  "hmac_sha256 key msg =
     (let k = (if 64 < length key then sha256 key else key);
          k0 = k @ replicate (64 - length k) 0;
          ipad = map (\<lambda>b. b XOR 0x36) k0;
          opad = map (\<lambda>b. b XOR 0x5c) k0
      in sha256 (opad @ sha256 (ipad @ msg)))"

lemma length_hmac [simp]: "length (hmac_sha256 k m) = 32"
  by (simp add: hmac_sha256_def Let_def)

definition hex_encode :: "bytes \<Rightarrow> string" where
  "hex_encode bs = concat (map (\<lambda>b. [digit_char (unat b div 16), digit_char (unat b mod 16)]) bs)"

lemma length_hex_encode [simp]: "length (hex_encode bs) = 2 * length bs"
  by (induction bs) (auto simp: hex_encode_def)

lemma hex_encode_inj: "hex_encode xs = hex_encode ys \<Longrightarrow> xs = ys"
proof (induction xs arbitrary: ys)
  case Nil
  then show ?case by (cases ys) (auto simp: hex_encode_def)
next
  case (Cons x xs)
  then obtain y ys' where ys: "ys = y # ys'"
    by (cases ys) (auto simp: hex_encode_def)
  have b: "unat b div 16 < 16" "unat b mod 16 < 16" for b :: "8 word"
    using unat_bound [of b] by auto
  have "unat x div 16 = unat y div 16" "unat x mod 16 = unat y mod 16" "hex_encode xs = hex_encode ys'"
    using Cons.prems b by (auto simp: ys hex_encode_def intro: digit_char_inj)
  then have "unat x = unat y" "xs = ys'"
    by (metis div_mult_mod_eq, metis Cons.IH)
  then show ?case by (simp add: ys unsigned_word_eqI)
qed

section \<open>The authenticator\<close>

record Authenticator =
  auth_secret :: bytes

definition NewAuthenticator :: "string \<Rightarrow> Authenticator" where
  "NewAuthenticator token = \<lparr>auth_secret = sha256 (bytes_of token)\<rparr>"

text \<open>\<open>random\<close>: the 16 bytes \<open>rand.Read\<close> delivered.\<close>

definition GenerateChallenge :: "bytes \<Rightarrow> string" where
  "GenerateChallenge random = hex_encode random"

definition ComputeResponse :: "Authenticator \<Rightarrow> string \<Rightarrow> string" where
  "ComputeResponse a challenge = hex_encode (hmac_sha256 (auth_secret a) (bytes_of challenge))"

definition ValidateResponse :: "Authenticator \<Rightarrow> string \<Rightarrow> string \<Rightarrow> bool" where
  "ValidateResponse a challenge response =
     (let expected = ComputeResponse a challenge
      in bytes_of expected = bytes_of response)"

text \<open>The password the client sends (client.go): challenge and response concatenated.\<close>

definition client_authString :: "Authenticator \<Rightarrow> bytes \<Rightarrow> string" where
  "client_authString a random =
     (let challenge = GenerateChallenge random; response = ComputeResponse a challenge
      in challenge @ response)"

lemma bytes_of_inj: "bytes_of s = bytes_of t \<longleftrightarrow> s = t"
proof
  assume "bytes_of s = bytes_of t"
  moreover have "inj (\<lambda>c :: char. word_of_nat (of_char c) :: 8 word)"
  proof (rule injI)
    fix c d :: char
    assume "(word_of_nat (of_char c) :: 8 word) = word_of_nat (of_char d)"
    then have "(of_char c :: nat) mod 256 = of_char d mod 256"
      by (simp add: word_of_nat_eq_iff take_bit_eq_mod)
    then show "c = d" by simp
  qed
  ultimately show "s = t" by (simp add: bytes_of_def)
qed simp

section \<open>The contract of a challenge-response scheme\<close>

text \<open>What the server relies on: a response is valid exactly when it is the one the holder of the
  same key computes, and it has a fixed length. A password is a challenge of \<open>clen\<close> bytes followed
  by the response.\<close>

locale challenge_response =
  fixes respond :: "'k \<Rightarrow> string \<Rightarrow> string"
    and validate :: "'k \<Rightarrow> string \<Rightarrow> string \<Rightarrow> bool"
    and clen :: nat
    and rlen :: nat
  assumes validate_iff: "validate k c r \<longleftrightarrow> r = respond k c"
    and respond_length: "length (respond k c) = rlen"
begin

lemma honest_accepted:
  "length c = clen \<Longrightarrow>
    validate k (take clen (c @ respond k c)) (drop clen (c @ respond k c))"
  by (simp add: validate_iff)

lemma accepted_unique:
  "clen \<le> length p \<Longrightarrow>
    validate k (take clen p) (drop clen p) \<longleftrightarrow> p = take clen p @ respond k (take clen p)"
  by (metis append_take_drop_id same_append_eq validate_iff)

lemma accepted_length:
  "clen \<le> length p \<Longrightarrow> validate k (take clen p) (drop clen p) \<Longrightarrow> length p = clen + rlen"
  by (metis append_take_drop_id length_append length_take min_absorb2 respond_length validate_iff)

end

interpretation tbore_scheme: challenge_response ComputeResponse ValidateResponse 32 64
  by unfold_locales (auto simp: ValidateResponse_def Let_def bytes_of_inj ComputeResponse_def)

end
