(* ===== verification/Lru_Cache.thy ===== *)
theory Lru_Cache
  imports Tbore_Base
begin

text \<open>
  The LRU cache of \<open>src/pkg/auth/blocker.go\<close>: a map from keys to list elements and a
  \<open>container/list\<close> of elements, front the most recently used. An element is a pointer (a number);
  \<open>lru_elems\<close> is the memory that holds the \<open>*lruEntry\<close> of each. The stored value (the code's
  \<open>*AuthFailureRecord\<close>) is a type parameter: the blocker stores addresses of records.
\<close>

section \<open>container/list\<close>

definition MoveToFront :: "nat \<Rightarrow> nat list \<Rightarrow> nat list" where
  "MoveToFront el xs = (if el \<in> set xs then el # remove1 el xs else xs)"

definition PushFront :: "nat \<Rightarrow> nat list \<Rightarrow> nat list" where
  "PushFront el xs = el # xs"

definition Back :: "nat list \<Rightarrow> nat option" where
  "Back xs = (if xs = [] then None else Some (last xs))"

definition list_Remove :: "nat \<Rightarrow> nat list \<Rightarrow> nat list" where
  "list_Remove el xs = remove1 el xs"

section \<open>The cache\<close>

record 'v lruEntry =
  le_key :: string
  le_rec :: 'v

record 'v lruCache =
  lru_capacity :: int
  lru_items :: "string \<rightharpoonup> nat"
  lru_order :: "nat list"
  lru_elems :: "nat \<rightharpoonup> 'v lruEntry"
  lru_fresh :: nat  \<comment> \<open>the allocator: elements below it are in use or were\<close>

abbreviation defaultLRUSize :: int where "defaultLRUSize \<equiv> 1000"

definition newLRUCache :: "int \<Rightarrow> 'v lruCache" where
  "newLRUCache capacity =
     \<lparr>lru_capacity = (if capacity \<le> 0 then defaultLRUSize else capacity),
      lru_items = Map.empty, lru_order = [], lru_elems = Map.empty, lru_fresh = 0\<rparr>"

text \<open>A key whose element holds no entry would be a nil dereference; no reachable cache has one
  (\<open>lru_inv\<close>).\<close>

definition lru_get :: "'v lruCache \<Rightarrow> string \<Rightarrow> 'v option \<times> 'v lruCache" where
  "lru_get c k =
     (case lru_items c k of
        Some el \<Rightarrow>
          (map_option le_rec (lru_elems c el), c\<lparr>lru_order := MoveToFront el (lru_order c)\<rparr>)
      | None \<Rightarrow> (None, c))"

definition lru_put :: "'v lruCache \<Rightarrow> string \<Rightarrow> 'v \<Rightarrow> 'v lruCache" where
  "lru_put c k r =
     (case lru_items c k of
        Some el \<Rightarrow>
          c\<lparr>lru_elems := (lru_elems c)(el := map_option (\<lambda>e. e\<lparr>le_rec := r\<rparr>) (lru_elems c el)),
            lru_order := MoveToFront el (lru_order c)\<rparr>
      | None \<Rightarrow>
          (let el = lru_fresh c;
               c1 = c\<lparr>lru_fresh := Suc el,
                      lru_elems := (lru_elems c)(el \<mapsto> \<lparr>le_key = k, le_rec = r\<rparr>),
                      lru_order := PushFront el (lru_order c),
                      lru_items := (lru_items c)(k \<mapsto> el)\<rparr>
           in if int (length (lru_order c1)) > lru_capacity c1 then
                (case Back (lru_order c1) of
                   None \<Rightarrow> c1
                 | Some oldest \<Rightarrow>
                     c1\<lparr>lru_order := list_Remove oldest (lru_order c1),
                        lru_items :=
                          (case lru_elems c1 oldest of
                             None \<Rightarrow> lru_items c1
                           | Some e \<Rightarrow> (lru_items c1)(le_key e := None))\<rparr>)
              else c1))"

definition lru_remove :: "'v lruCache \<Rightarrow> string \<Rightarrow> 'v lruCache" where
  "lru_remove c k =
     (case lru_items c k of
        Some el \<Rightarrow>
          c\<lparr>lru_order := list_Remove el (lru_order c), lru_items := (lru_items c)(k := None)\<rparr>
      | None \<Rightarrow> c)"

section \<open>The abstract cache: entries, most recently used first\<close>

definition alist_touch :: "string \<Rightarrow> (string \<times> 'v) list \<Rightarrow> (string \<times> 'v) list" where
  "alist_touch k xs =
     (case map_of xs k of None \<Rightarrow> xs | Some v \<Rightarrow> (k, v) # filter (\<lambda>p. fst p \<noteq> k) xs)"

definition alist_store :: "nat \<Rightarrow> string \<Rightarrow> 'v \<Rightarrow> (string \<times> 'v) list \<Rightarrow> (string \<times> 'v) list" where
  "alist_store cap k v xs = take cap ((k, v) # filter (\<lambda>p. fst p \<noteq> k) xs)"

definition alist_drop :: "string \<Rightarrow> (string \<times> 'v) list \<Rightarrow> (string \<times> 'v) list" where
  "alist_drop k xs = filter (\<lambda>p. fst p \<noteq> k) xs"

text \<open>The entries of a concrete cache, and its invariant: the map and the list describe the same
  elements, every element has its own key, and the capacity is respected.\<close>

definition lru_entry :: "'v lruCache \<Rightarrow> nat \<Rightarrow> string \<times> 'v" where
  "lru_entry c el = (case lru_elems c el of Some e \<Rightarrow> (le_key e, le_rec e) | None \<Rightarrow> undefined)"

definition lru_list :: "'v lruCache \<Rightarrow> (string \<times> 'v) list" where
  "lru_list c = map (lru_entry c) (lru_order c)"

definition lru_content :: "'v lruCache \<Rightarrow> string \<rightharpoonup> 'v" where
  "lru_content c = map_of (lru_list c)"

definition lru_inv :: "'v lruCache \<Rightarrow> bool" where
  "lru_inv c \<longleftrightarrow>
     0 < lru_capacity c \<and> int (length (lru_order c)) \<le> lru_capacity c \<and>
     distinct (lru_order c) \<and> (\<forall>el \<in> set (lru_order c). el < lru_fresh c) \<and>
     (\<forall>k el. lru_items c k = Some el \<longleftrightarrow>
        el \<in> set (lru_order c) \<and> (\<exists>e. lru_elems c el = Some e \<and> le_key e = k)) \<and>
     (\<forall>el \<in> set (lru_order c). lru_elems c el \<noteq> None)"

lemma lru_invI:
  assumes "0 < lru_capacity c" "int (length (lru_order c)) \<le> lru_capacity c" "distinct (lru_order c)"
    and "\<And>el. el \<in> set (lru_order c) \<Longrightarrow> el < lru_fresh c"
    and "\<And>el. el \<in> set (lru_order c) \<Longrightarrow> \<exists>e. lru_elems c el = Some e"
    and "\<And>k el. lru_items c k = Some el \<Longrightarrow>
           el \<in> set (lru_order c) \<and> (\<exists>e. lru_elems c el = Some e \<and> le_key e = k)"
    and "\<And>el e. el \<in> set (lru_order c) \<Longrightarrow> lru_elems c el = Some e \<Longrightarrow>
           lru_items c (le_key e) = Some el"
  shows "lru_inv c"
  unfolding lru_inv_def using assms by blast

lemma lru_invD:
  assumes "lru_inv c"
  shows "0 < lru_capacity c" "int (length (lru_order c)) \<le> lru_capacity c"
    and "distinct (lru_order c)"
    and "el \<in> set (lru_order c) \<Longrightarrow> el < lru_fresh c"
    and "el \<in> set (lru_order c) \<Longrightarrow> \<exists>e. lru_elems c el = Some e"
    and "lru_items c k = Some el \<longleftrightarrow>
           el \<in> set (lru_order c) \<and> (\<exists>e. lru_elems c el = Some e \<and> le_key e = k)"
  using assms unfolding lru_inv_def by - (elim conjE, blast)+

lemma lru_items_el:
  assumes "lru_inv c" "lru_items c k = Some el"
  obtains e where "el \<in> set (lru_order c)" "lru_elems c el = Some e" "le_key e = k"
  using assms lru_invD(6) [OF assms(1)] by blast

lemma lru_el_items: "lru_inv c \<Longrightarrow> el \<in> set (lru_order c) \<Longrightarrow> lru_elems c el = Some e \<Longrightarrow>
    lru_items c (le_key e) = Some el"
  using lru_invD(6) by blast

lemma lru_entry_key:
  assumes "lru_inv c" "el \<in> set (lru_order c)"
  shows "fst (lru_entry c el) = k \<longleftrightarrow> lru_items c k = Some el"
proof -
  obtain e where e: "lru_elems c el = Some e"
    using lru_invD(5) [OF assms] by blast
  then have "fst (lru_entry c el) = le_key e"
    by (simp add: lru_entry_def)
  with lru_el_items [OF assms e] e show ?thesis
    by (auto elim: lru_items_el [OF assms(1)])
qed

lemma lru_keys:
  assumes "lru_inv c"
  shows "k \<in> fst ` set (lru_list c) \<longleftrightarrow> lru_items c k \<noteq> None"
proof
  assume "k \<in> fst ` set (lru_list c)"
  then obtain el where "el \<in> set (lru_order c)" "fst (lru_entry c el) = k"
    by (auto simp: lru_list_def)
  then show "lru_items c k \<noteq> None"
    using lru_entry_key [OF assms, of el k] by simp
next
  assume "lru_items c k \<noteq> None"
  then obtain el where el: "lru_items c k = Some el" by blast
  then have "el \<in> set (lru_order c)" by (rule lru_items_el [OF assms])
  moreover from this have "fst (lru_entry c el) = k"
    using lru_entry_key [OF assms, of el k] el by simp
  ultimately show "k \<in> fst ` set (lru_list c)"
    by (auto simp: lru_list_def)
qed

lemma lru_list_distinct: "lru_inv c \<Longrightarrow> distinct (map fst (lru_list c))"
proof -
  assume inv: "lru_inv c"
  have "inj_on (fst \<circ> lru_entry c) (set (lru_order c))"
  proof (rule inj_onI)
    fix x y
    assume "x \<in> set (lru_order c)" "y \<in> set (lru_order c)"
      and "(fst \<circ> lru_entry c) x = (fst \<circ> lru_entry c) y"
    then have "lru_items c (fst (lru_entry c x)) = Some x" "lru_items c (fst (lru_entry c x)) = Some y"
      using lru_entry_key [OF inv, of x "fst (lru_entry c x)"]
        lru_entry_key [OF inv, of y "fst (lru_entry c x)"] by (simp_all del: not_None_eq)
    then show "x = y" by simp
  qed
  then show ?thesis
    using lru_invD(3) [OF inv] by (simp add: lru_list_def distinct_map)
qed

lemma lru_content_entry:
  assumes "lru_inv c" "lru_items c k = Some el"
  shows "lru_content c k = map_option le_rec (lru_elems c el)"
proof -
  obtain e where el: "el \<in> set (lru_order c)" "lru_elems c el = Some e" "le_key e = k"
    by (rule lru_items_el [OF assms])
  then have "(k, le_rec e) \<in> set (lru_list c)"
    by (force simp: lru_list_def lru_entry_def)
  with lru_list_distinct [OF assms(1)] show ?thesis
    by (simp add: lru_content_def el(2))
qed

lemma lru_content_None: "lru_inv c \<Longrightarrow> lru_items c k = None \<Longrightarrow> lru_content c k = None"
  using lru_keys [of c k] by (simp add: lru_content_def map_of_eq_None_iff)

text \<open>Taking the element of a key out of the list is filtering its key out of the entries.\<close>

lemma map_entry_remove:
  assumes "lru_inv c" "lru_items c k = Some el"
  shows "map (lru_entry c) (remove1 el (lru_order c)) = filter (\<lambda>p. fst p \<noteq> k) (lru_list c)"
proof -
  have "remove1 el (lru_order c) = filter (\<lambda>x. x \<noteq> el) (lru_order c)"
    using lru_invD(3) [OF assms(1)]
    by (simp add: distinct_remove1_removeAll removeAll_filter_not_eq eq_commute [of el])
  also have "\<dots> = filter (\<lambda>x. fst (lru_entry c x) \<noteq> k) (lru_order c)"
    by (rule filter_cong) (use lru_entry_key [OF assms(1)] assms(2) in auto)
  finally show ?thesis
    by (simp add: lru_list_def filter_map comp_def)
qed

section \<open>The operations implement the abstract cache\<close>

lemma lru_inv_new: "lru_inv (newLRUCache cap)"
  by (simp add: lru_inv_def newLRUCache_def)

lemma lru_list_new [simp]: "lru_list (newLRUCache cap) = []"
  by (simp add: lru_list_def newLRUCache_def)

lemma lru_get_value: "lru_inv c \<Longrightarrow> fst (lru_get c k) = lru_content c k"
  by (auto simp: lru_get_def lru_content_entry lru_content_None split: option.splits)

lemma lru_hit_order:
  assumes "lru_inv c" "lru_items c k = Some el"
  shows "MoveToFront el (lru_order c) = el # remove1 el (lru_order c)"
    and "set (el # remove1 el (lru_order c)) = set (lru_order c)"
    and "length (el # remove1 el (lru_order c)) = length (lru_order c)"
    and "distinct (el # remove1 el (lru_order c))"
proof -
  have el: "el \<in> set (lru_order c)" and d: "distinct (lru_order c)"
    using assms lru_invD(3,6) [OF assms(1)] by auto
  show "MoveToFront el (lru_order c) = el # remove1 el (lru_order c)"
    using el by (simp add: MoveToFront_def)
  show "set (el # remove1 el (lru_order c)) = set (lru_order c)"
    and "distinct (el # remove1 el (lru_order c))"
    using el d by auto
  show "length (el # remove1 el (lru_order c)) = length (lru_order c)"
    using length_pos_if_in_set [OF el] el by (simp add: length_remove1)
qed

text \<open>Reordering the elements, or changing the value one of them holds, keeps the invariant.\<close>

lemma lru_inv_reorder:
  assumes inv: "lru_inv c"
    and order: "set xs = set (lru_order c)" "length xs = length (lru_order c)" "distinct xs"
    and elems: "\<And>el. map_option le_key (elems el) = map_option le_key (lru_elems c el)"
  shows "lru_inv (c\<lparr>lru_elems := elems, lru_order := xs\<rparr>)"
proof -
  have key: "(\<exists>e. elems el = Some e \<and> le_key e = k) \<longleftrightarrow> (\<exists>e. lru_elems c el = Some e \<and> le_key e = k)"
    for el k
    using elems [of el] by (cases "elems el"; cases "lru_elems c el") auto
  have some: "elems el \<noteq> None \<longleftrightarrow> lru_elems c el \<noteq> None" for el
    using elems [of el] by (cases "elems el"; cases "lru_elems c el") auto
  show ?thesis
    using inv unfolding lru_inv_def by (simp add: order key some del: not_None_eq)
qed

lemma lru_get_inv:
  assumes inv: "lru_inv c"
  shows "lru_inv (snd (lru_get c k))"
proof (cases "lru_items c k")
  case (Some el)
  show ?thesis
    using lru_inv_reorder [OF inv lru_hit_order(2-4) [OF inv Some] refl]
    by (simp add: lru_get_def Some lru_hit_order(1) [OF inv Some])
qed (simp add: lru_get_def inv)

lemma lru_get_list: "lru_inv c \<Longrightarrow> lru_list (snd (lru_get c k)) = alist_touch k (lru_list c)"
proof (cases "lru_items c k")
  case None
  assume "lru_inv c"
  with None show ?thesis
    using lru_content_None [of c k] by (simp add: lru_get_def alist_touch_def lru_content_def)
next
  case (Some el)
  assume inv: "lru_inv c"
  obtain e where e: "lru_elems c el = Some e" "le_key e = k"
    by (rule lru_items_el [OF inv Some])
  have "lru_entry (c\<lparr>lru_order := xs\<rparr>) = lru_entry c" for xs
    by (simp add: lru_entry_def fun_eq_iff)
  then show ?thesis
    using lru_hit_order(1) [OF inv Some] map_entry_remove [OF inv Some] lru_content_entry [OF inv Some] e
    by (simp add: lru_get_def Some lru_list_def alist_touch_def lru_content_def)
       (simp add: lru_entry_def)
qed

lemma lru_remove_inv:
  assumes inv: "lru_inv c"
  shows "lru_inv (lru_remove c k)"
proof (cases "lru_items c k")
  case None
  with inv show ?thesis by (simp add: lru_remove_def)
next
  case (Some el)
  let ?c = "c\<lparr>lru_order := remove1 el (lru_order c), lru_items := (lru_items c)(k := None)\<rparr>"
  have set: "set (lru_order ?c) = set (lru_order c) - {el}"
    using lru_invD(3) [OF inv] by simp
  have len: "length (lru_order ?c) \<le> length (lru_order c)"
    by (simp add: length_remove1)
  have "lru_inv ?c"
  proof (rule lru_invI)
    show "0 < lru_capacity ?c" "int (length (lru_order ?c)) \<le> lru_capacity ?c" "distinct (lru_order ?c)"
      using lru_invD(1-3) [OF inv] len by simp_all
    fix x
    assume x: "x \<in> set (lru_order ?c)"
    then show "x < lru_fresh ?c" "\<exists>e. lru_elems ?c x = Some e"
      using lru_invD(4,5) [OF inv, of x] unfolding set by simp_all
    fix e
    assume e: "lru_elems ?c x = Some e"
    then have "lru_items c (le_key e) = Some x"
      using x unfolding set by (intro lru_el_items [OF inv]) simp_all
    then show "lru_items ?c (le_key e) = Some x"
      using x Some unfolding set by auto
  next
    fix k' x
    assume "lru_items ?c k' = Some x"
    then have *: "k' \<noteq> k" "lru_items c k' = Some x" by (simp_all split: if_splits)
    obtain e where e: "x \<in> set (lru_order c)" "lru_elems c x = Some e" "le_key e = k'"
      by (rule lru_items_el [OF inv *(2)])
    obtain e' where "lru_elems c el = Some e'" "le_key e' = k"
      by (rule lru_items_el [OF inv Some])
    with e *(1) show "x \<in> set (lru_order ?c) \<and> (\<exists>e. lru_elems ?c x = Some e \<and> le_key e = k')"
      unfolding set by auto
  qed
  then show ?thesis by (simp add: lru_remove_def Some list_Remove_def)
qed

lemma lru_remove_list: "lru_inv c \<Longrightarrow> lru_list (lru_remove c k) = alist_drop k (lru_list c)"
proof (cases "lru_items c k")
  case None
  assume inv: "lru_inv c"
  have "filter (\<lambda>p. fst p \<noteq> k) (lru_list c) = lru_list c"
    by (rule filter_True) (use lru_keys [OF inv, of k] None in force)
  with None show ?thesis by (simp add: lru_remove_def alist_drop_def)
next
  case (Some el)
  assume inv: "lru_inv c"
  have "lru_entry (c\<lparr>lru_order := xs, lru_items := m\<rparr>) = lru_entry c" for xs m
    by (simp add: lru_entry_def fun_eq_iff)
  then show ?thesis
    using map_entry_remove [OF inv Some]
    by (simp add: lru_remove_def Some list_Remove_def alist_drop_def lru_list_def)
qed

text \<open>\<open>put\<close> on a cached key overwrites its value and moves it to the front.\<close>

lemma lru_put_hit:
  assumes inv: "lru_inv c" and hit: "lru_items c k = Some el"
  shows "lru_inv (lru_put c k r)"
    and "lru_list (lru_put c k r) = (k, r) # filter (\<lambda>p. fst p \<noteq> k) (lru_list c)"
proof -
  obtain e where e: "el \<in> set (lru_order c)" "lru_elems c el = Some e" "le_key e = k"
    by (rule lru_items_el [OF inv hit])
  let ?elems = "(lru_elems c)(el \<mapsto> e\<lparr>le_rec := r\<rparr>)"
  let ?c = "c\<lparr>lru_elems := ?elems, lru_order := el # remove1 el (lru_order c)\<rparr>"
  have put: "lru_put c k r = ?c"
    using e by (simp add: lru_put_def hit lru_hit_order(1) [OF inv hit])
  show "lru_inv (lru_put c k r)"
    unfolding put by (rule lru_inv_reorder [OF inv lru_hit_order(2-4) [OF inv hit]]) (use e in auto)
  have other: "lru_entry ?c x = lru_entry c x" if "x \<noteq> el" for x
    using that by (simp add: lru_entry_def)
  have "map (lru_entry ?c) (remove1 el (lru_order c)) = map (lru_entry c) (remove1 el (lru_order c))"
    using lru_invD(3) [OF inv] by (intro map_cong refl other) auto
  moreover have "lru_entry ?c el = (k, r)"
    using e by (simp add: lru_entry_def)
  ultimately show "lru_list (lru_put c k r) = (k, r) # filter (\<lambda>p. fst p \<noteq> k) (lru_list c)"
    unfolding put lru_list_def map_entry_remove [OF inv hit, symmetric, unfolded lru_list_def] by simp
qed

text \<open>\<open>put\<close> on a new key: a fresh element at the front, and the last element out when the capacity
  is exceeded.\<close>

definition lru_push :: "'v lruCache \<Rightarrow> string \<Rightarrow> 'v \<Rightarrow> 'v lruCache" where
  "lru_push c k r =
     c\<lparr>lru_fresh := Suc (lru_fresh c),
       lru_elems := (lru_elems c)(lru_fresh c \<mapsto> \<lparr>le_key = k, le_rec = r\<rparr>),
       lru_order := lru_fresh c # lru_order c,
       lru_items := (lru_items c)(k \<mapsto> lru_fresh c)\<rparr>"

lemma lru_push_list:
  assumes inv: "lru_inv c"
  shows "lru_list (lru_push c k r) = (k, r) # lru_list c"
proof -
  have "lru_entry (lru_push c k r) x = lru_entry c x" if "x \<in> set (lru_order c)" for x
    using lru_invD(4) [OF inv that] by (simp add: lru_entry_def lru_push_def)
  then show ?thesis
    by (simp add: lru_list_def lru_push_def) (simp add: lru_entry_def)
qed

lemma lru_inv_push:
  assumes inv: "lru_inv c" and miss: "lru_items c k = None"
  shows "lru_inv (lru_push c k r\<lparr>lru_capacity := lru_capacity c + 1\<rparr>)"
proof (rule lru_invI)
  let ?c = "lru_push c k r\<lparr>lru_capacity := lru_capacity c + 1\<rparr>"
  have fresh: "lru_fresh c \<notin> set (lru_order c)"
    using lru_invD(4) [OF inv] by blast
  show "0 < lru_capacity ?c" "int (length (lru_order ?c)) \<le> lru_capacity ?c" "distinct (lru_order ?c)"
    using lru_invD(1-3) [OF inv] fresh by (simp_all add: lru_push_def)
  fix x
  assume x: "x \<in> set (lru_order ?c)"
  show "x < lru_fresh ?c" "\<exists>e. lru_elems ?c x = Some e"
    using x lru_invD(4,5) [OF inv, of x] by (auto simp: lru_push_def less_Suc_eq)
  fix e
  assume "lru_elems ?c x = Some e"
  then show "lru_items ?c (le_key e) = Some x"
    using x lru_el_items [OF inv, of x e] miss fresh
    by (cases "x = lru_fresh c") (auto simp: lru_push_def)
next
  let ?c = "lru_push c k r\<lparr>lru_capacity := lru_capacity c + 1\<rparr>"
  fix k' x
  assume "lru_items ?c k' = Some x"
  then consider "k' = k" "x = lru_fresh c" | "k' \<noteq> k" "lru_items c k' = Some x"
    by (auto simp: lru_push_def split: if_splits)
  then show "x \<in> set (lru_order ?c) \<and> (\<exists>e. lru_elems ?c x = Some e \<and> le_key e = k')"
  proof cases
    case 1
    then show ?thesis by (simp add: lru_push_def)
  next
    case 2
    obtain e where "x \<in> set (lru_order c)" "lru_elems c x = Some e" "le_key e = k'"
      by (rule lru_items_el [OF inv 2(2)])
    then show ?thesis
      using lru_invD(4) [OF inv, of x] by (auto simp: lru_push_def)
  qed
qed

lemma lru_inv_capacity:
  "lru_inv c \<Longrightarrow> 0 < cap \<Longrightarrow> int (length (lru_order c)) \<le> cap \<Longrightarrow>
     lru_inv (c\<lparr>lru_capacity := cap\<rparr>)"
  unfolding lru_inv_def by (elim conjE, intro conjI) simp_all

lemma lru_list_capacity [simp]: "lru_list (c\<lparr>lru_capacity := n\<rparr>) = lru_list c"
proof -
  have "lru_entry (c\<lparr>lru_capacity := n\<rparr>) = lru_entry c"
    by (simp add: lru_entry_def fun_eq_iff)
  then show ?thesis by (simp add: lru_list_def)
qed

lemma length_lru_list [simp]: "length (lru_list c) = length (lru_order c)"
  by (simp add: lru_list_def)

lemma filter_last_key:
  "distinct (map fst xs) \<Longrightarrow> xs \<noteq> [] \<Longrightarrow> filter (\<lambda>p. fst p \<noteq> fst (last xs)) xs = butlast xs"
proof (induction xs rule: rev_induct)
  case (snoc p ys)
  then have "fst p \<notin> fst ` set ys" by simp
  then have "\<forall>q \<in> set ys. fst q \<noteq> fst p" by (metis imageI)
  then show ?case by simp
qed simp

lemma lru_put_miss:
  assumes inv: "lru_inv c" and miss: "lru_items c k = None"
  shows "lru_inv (lru_put c k r)"
    and "lru_list (lru_put c k r) = take (nat (lru_capacity c)) ((k, r) # lru_list c)"
proof -
  let ?n = "lru_push c k r" and ?big = "\<lambda>c'. c'\<lparr>lru_capacity := lru_capacity c + 1\<rparr>"
  have big: "lru_inv (?big ?n)"
    by (rule lru_inv_push [OF inv miss])
  have order: "lru_order ?n = lru_fresh c # lru_order c" and cap: "lru_capacity ?n = lru_capacity c"
    by (simp_all add: lru_push_def)
  have pos: "0 < lru_capacity c" and len: "int (length (lru_order c)) \<le> lru_capacity c"
    using lru_invD(1,2) [OF inv] by simp_all
  have "lru_inv (lru_put c k r) \<and>
      lru_list (lru_put c k r) = take (nat (lru_capacity c)) ((k, r) # lru_list c)"
  proof (cases "int (length (lru_order ?n)) > lru_capacity c")
    case False
    have put: "lru_put c k r = ?n\<lparr>lru_capacity := lru_capacity c\<rparr>"
      using False by (simp add: lru_put_def miss Let_def PushFront_def lru_push_def)
    have "lru_inv (?n\<lparr>lru_capacity := lru_capacity c\<rparr>)"
      using lru_inv_capacity [OF big pos] False by simp
    moreover have "length ((k, r) # lru_list c) \<le> nat (lru_capacity c)"
      using False order by simp
    ultimately show ?thesis
      by (simp add: put lru_push_list [OF inv])
  next
    case True
    let ?o = "last (lru_order ?n)"
    have o: "?o \<in> set (lru_order (?big ?n))"
      using last_in_set [of "lru_order ?n"] by (simp add: order)
    obtain e where e: "lru_elems ?n ?o = Some e"
      using lru_invD(5) [OF big o] by (auto simp: lru_push_def)
    have item: "lru_items (?big ?n) (le_key e) = Some ?o"
      by (rule lru_el_items [OF big o]) (simp add: e)
    let ?r = "lru_remove (?big ?n) (le_key e)"
    have put: "lru_put c k r = ?r\<lparr>lru_capacity := lru_capacity c\<rparr>"
      using True item e order
      by (simp add: lru_put_def miss Let_def PushFront_def Back_def lru_push_def lru_remove_def)
    have full: "length ((k, r) # lru_list c) = Suc (nat (lru_capacity c))"
      using True len order by simp
    have "last (lru_list ?n) = lru_entry ?n ?o"
      unfolding lru_list_def by (rule last_map) (simp add: order)
    then have key: "le_key e = fst (last (lru_list ?n))"
      by (simp only: lru_entry_def e) simp
    have "lru_list ?r = filter (\<lambda>p. fst p \<noteq> fst (last (lru_list ?n))) (lru_list ?n)"
      unfolding lru_remove_list [OF big] alist_drop_def key lru_list_capacity ..
    also have "\<dots> = butlast (lru_list ?n)"
      using lru_list_distinct [OF big] by (intro filter_last_key) (simp_all add: lru_push_list [OF inv])
    finally have list: "lru_list ?r = butlast ((k, r) # lru_list c)"
      by (simp only: lru_push_list [OF inv])
    have "length (lru_order ?r) = length (butlast ((k, r) # lru_list c))"
      using arg_cong [OF list, of length] by (simp del: butlast.simps)
    then have "int (length (lru_order ?r)) \<le> lru_capacity c"
      using full pos by simp
    then have "lru_inv (lru_put c k r)"
      unfolding put by (intro lru_inv_capacity lru_remove_inv big pos)
    moreover have "butlast ((k, r) # lru_list c) = take (nat (lru_capacity c)) ((k, r) # lru_list c)"
      using full by (simp only: butlast_conv_take) simp
    ultimately show ?thesis
      by (simp add: put list del: butlast.simps)
  qed
  then show "lru_inv (lru_put c k r)"
    and "lru_list (lru_put c k r) = take (nat (lru_capacity c)) ((k, r) # lru_list c)" by simp_all
qed

lemma lru_put_inv: "lru_inv c \<Longrightarrow> lru_inv (lru_put c k r)"
  by (cases "lru_items c k") (rule lru_put_miss(1) lru_put_hit(1), assumption+)+

lemma lru_put_list:
  assumes inv: "lru_inv c"
  shows "lru_list (lru_put c k r) = alist_store (nat (lru_capacity c)) k r (lru_list c)"
proof (cases "lru_items c k")
  case None
  have "filter (\<lambda>p. fst p \<noteq> k) (lru_list c) = lru_list c"
    by (rule filter_True) (use lru_keys [OF inv, of k] None in force)
  then show ?thesis
    by (simp add: lru_put_miss(2) [OF inv None] alist_store_def)
next
  case (Some el)
  have "length (filter (\<lambda>p. fst p \<noteq> k) (lru_list c)) < length (lru_list c)"
  proof (rule length_filter_less)
    show "lru_entry c el \<in> set (lru_list c)" "\<not> fst (lru_entry c el) \<noteq> k"
      using lru_items_el [OF inv Some] lru_entry_key [OF inv, of el k] Some
      by (auto simp: lru_list_def)
  qed
  then have "length ((k, r) # filter (\<lambda>p. fst p \<noteq> k) (lru_list c)) \<le> nat (lru_capacity c)"
    using lru_invD(2) [OF inv] by simp
  then show ?thesis
    unfolding alist_store_def lru_put_hit(2) [OF inv Some] by (rule take_all [symmetric])
qed

lemma lru_capacity_kept [simp]:
  "lru_capacity (snd (lru_get c k)) = lru_capacity c"
  "lru_capacity (lru_put c k r) = lru_capacity c"
  "lru_capacity (lru_remove c k) = lru_capacity c"
  by (auto simp: lru_get_def lru_put_def lru_remove_def Let_def split: option.splits)

section \<open>The contract of a keyed cache\<close>

text \<open>What the blocker relies on: a cache that may forget other entries when one is stored, but never
  makes one up. A fact \<open>P\<close> about every cached entry survives every operation, and so does the fact
  that no value (no pointer) is cached under two keys.\<close>

locale keyed_cache =
  fixes get :: "'c \<Rightarrow> 'k \<Rightarrow> 'v option \<times> 'c"
    and put :: "'c \<Rightarrow> 'k \<Rightarrow> 'v \<Rightarrow> 'c"
    and remove :: "'c \<Rightarrow> 'k \<Rightarrow> 'c"
    and content :: "'c \<Rightarrow> 'k \<rightharpoonup> 'v"
    and cinv :: "'c \<Rightarrow> bool"
  assumes get_value: "cinv c \<Longrightarrow> fst (get c k) = content c k"
    and get_content: "cinv c \<Longrightarrow> content (snd (get c k)) = content c"
    and put_self: "cinv c \<Longrightarrow> content (put c k v) k = Some v"
    and put_other: "cinv c \<Longrightarrow> k' \<noteq> k \<Longrightarrow> content (put c k v) k' \<in> {None, content c k'}"
    and remove_content: "cinv c \<Longrightarrow> content (remove c k) = (content c)(k := None)"
    and get_cinv: "cinv c \<Longrightarrow> cinv (snd (get c k))"
    and put_cinv: "cinv c \<Longrightarrow> cinv (put c k v)"
    and remove_cinv: "cinv c \<Longrightarrow> cinv (remove c k)"
begin

lemma put_entry:
  assumes "cinv c" "content (put c k v) k' = Some w"
  shows "(k' = k \<and> w = v) \<or> (k' \<noteq> k \<and> content c k' = Some w)"
  using assms put_self [of c k v] put_other [of c k' k v] by (cases "k' = k") auto

lemma entries_put:
  assumes "cinv c" "P k v" "\<And>k' w. k' \<noteq> k \<Longrightarrow> content c k' = Some w \<Longrightarrow> P k' w"
    and "content (put c k v) k' = Some w"
  shows "P k' w"
  using put_entry [OF assms(1,4)] assms(2,3) by blast

lemma unshared_put:
  assumes "cinv c" "\<And>k1 k2 w. content c k1 = Some w \<Longrightarrow> content c k2 = Some w \<Longrightarrow> k1 = k2"
    and "\<And>k'. k' \<noteq> k \<Longrightarrow> content c k' \<noteq> Some v"
    and "content (put c k v) k1 = Some w" "content (put c k v) k2 = Some w"
  shows "k1 = k2"
  using put_entry [OF assms(1,4)] put_entry [OF assms(1,5)] assms(2,3) by blast

end

lemma map_of_filter_key:
  "map_of (filter (\<lambda>p. fst p \<noteq> k) xs) k' = (if k' = k then None else map_of xs k')"
  using map_of_filter_keys [of "\<lambda>x. x \<noteq> k" xs k'] by simp

lemma map_of_take: "distinct (map fst xs) \<Longrightarrow> map_of (take n xs) k \<in> {None, map_of xs k}"
proof (cases "map_of (take n xs) k")
  case (Some v)
  assume d: "distinct (map fst xs)"
  from Some have "(k, v) \<in> set xs" by (meson in_set_takeD map_of_SomeD)
  with d Some show ?thesis by simp
qed simp

interpretation lru: keyed_cache lru_get lru_put lru_remove lru_content lru_inv
proof (unfold_locales, goal_cases)
  case (2 c k)
  then show ?case
    by (auto simp: lru_content_def lru_get_list alist_touch_def map_of_filter_key split: option.splits)
next
  case (3 c k v)
  then show ?case
    using lru_invD(1) [of c] by (simp add: lru_content_def lru_put_list alist_store_def take_Cons')
next
  case (4 c k' k v)
  let ?xs = "(k, v) # filter (\<lambda>p. fst p \<noteq> k) (lru_list c)"
  have lookup: "map_of ?xs k' = lru_content c k'"
    using 4 by (simp add: lru_content_def map_of_filter_key)
  have "distinct (map fst ?xs)"
    using lru_list_distinct [OF 4(1)] by (auto simp: distinct_map_filter)
  from map_of_take [OF this, of "nat (lru_capacity c)" k'] show ?case
    unfolding lookup lru_content_def [of "lru_put c k v"] lru_put_list [OF 4(1)] alist_store_def .
next
  case (5 c k)
  then show ?case
    by (simp add: lru_content_def lru_remove_list alist_drop_def map_of_filter_key fun_eq_iff)
qed (simp_all add: lru_get_value lru_get_inv lru_put_inv lru_remove_inv)

section \<open>Traces of cache operations\<close>

datatype 'v lru_event = Get string | Put string 'v | Remove string

fun lru_step :: "'v lruCache \<Rightarrow> 'v lru_event \<Rightarrow> 'v lruCache" where
  "lru_step c (Get k) = snd (lru_get c k)"
| "lru_step c (Put k v) = lru_put c k v"
| "lru_step c (Remove k) = lru_remove c k"

fun alist_step :: "nat \<Rightarrow> (string \<times> 'v) list \<Rightarrow> 'v lru_event \<Rightarrow> (string \<times> 'v) list" where
  "alist_step cap xs (Get k) = alist_touch k xs"
| "alist_step cap xs (Put k v) = alist_store cap k v xs"
| "alist_step cap xs (Remove k) = alist_drop k xs"

interpretation lru_trace: simulation lru_step "\<lambda>_. True"
  "\<lambda>c. lru_inv c \<and> lru_capacity c = cap" lru_list "alist_step (nat cap)" for cap
proof (unfold_locales, goal_cases)
  case (1 c e)
  then show ?case
    by (cases e) (simp_all add: lru_get_inv lru_put_inv lru_remove_inv)
next
  case (2 c e)
  then show ?case
    by (cases e) (simp_all add: lru_get_list lru_put_list lru_remove_list)
qed

text \<open>The capacity a requested one gives.\<close>

definition lru_cap :: "int \<Rightarrow> int" where
  "lru_cap capacity = (if capacity \<le> 0 then defaultLRUSize else capacity)"

lemma lru_capacity_new: "lru_capacity (newLRUCache capacity) = lru_cap capacity"
  by (simp add: newLRUCache_def lru_cap_def)

lemma lru_run_inv:
  "lru_inv (foldl lru_step (newLRUCache capacity) es) \<and>
     lru_capacity (foldl lru_step (newLRUCache capacity) es) = lru_cap capacity"
  by (rule lru_trace.run_inv) (simp_all add: lru_inv_new lru_capacity_new list_all_iff)

text \<open>(C10) The LRU cache refines its specification: after any sequence of gets, puts and removes on a
  new cache, the linked elements hold exactly the entries of the abstract cache (a list, most
  recently used first, cut at the capacity; a capacity of at most 0 is the default of 1000).\<close>

theorem lru_refines_recency_list:
  "lru_list (foldl lru_step (newLRUCache capacity) es) =
     foldl (alist_step (nat (lru_cap capacity))) [] es"
  using lru_trace.run_abs [of "newLRUCache capacity" "lru_cap capacity" es]
  by (simp add: lru_inv_new lru_capacity_new list_all_iff)

text \<open>Memory is bounded: whatever the sequence of operations, the cache never holds more elements
  than its capacity, its map has one entry per element and no two elements have the same key.\<close>

theorem lru_bounded:
  "let c = foldl lru_step (newLRUCache capacity) es
   in int (length (lru_order c)) \<le> lru_cap capacity \<and>
      card (dom (lru_items c)) = length (lru_order c) \<and> distinct (map fst (lru_list c))"
proof -
  let ?c = "foldl lru_step (newLRUCache capacity) es"
  have inv: "lru_inv ?c" and cap: "lru_capacity ?c = lru_cap capacity"
    using lru_run_inv by blast+
  have "dom (lru_items ?c) = set (map fst (lru_list ?c))"
    using lru_keys [OF inv] by (auto simp: dom_def)
  then have "card (dom (lru_items ?c)) = length (lru_order ?c)"
    using distinct_card [OF lru_list_distinct [OF inv]] by simp
  then show ?thesis
    using lru_invD(2) [OF inv] cap lru_list_distinct [OF inv] by (simp add: Let_def)
qed

text \<open>Eviction. \<open>recency\<close> is the unbounded history: the last value of every key stored, the latest
  first.\<close>

definition recency :: "(string \<times> 'v) list \<Rightarrow> (string \<times> 'v) list" where
  "recency kvs = foldl (\<lambda>xs (k, v). (k, v) # filter (\<lambda>p. fst p \<noteq> k) xs) [] kvs"

lemma take_filter_key:
  "distinct (map fst xs) \<Longrightarrow>
     take n (filter (\<lambda>p. fst p \<noteq> k) (take (Suc n) xs)) = take n (filter (\<lambda>p. fst p \<noteq> k) xs)"
proof (induction xs arbitrary: n)
  case (Cons x xs)
  show ?case
  proof (cases "fst x = k")
    case True
    then have other: "fst p \<noteq> k" if "p \<in> set xs" for p
      using Cons.prems that by (auto simp: image_iff)
    have "filter (\<lambda>p. fst p \<noteq> k) xs = xs"
      by (intro filter_True ballI other)
    moreover have "filter (\<lambda>p. fst p \<noteq> k) (take n xs) = take n xs"
      by (intro filter_True ballI other) (rule in_set_takeD)
    ultimately show ?thesis using True by simp
  next
    case False
    then show ?thesis
      using Cons by (cases n) simp_all
  qed
qed simp

lemma recency_distinct: "distinct (map fst (recency kvs))"
  by (induction kvs rule: rev_induct) (auto simp: recency_def distinct_map_filter split: prod.splits)

text \<open>What is evicted is the least recently stored: after storing any sequence of keys and
  values the cache holds, in order, the first \<open>capacity\<close> entries of the unbounded history.\<close>

theorem lru_keeps_most_recent:
  "lru_list (foldl (\<lambda>c (k, v). lru_put c k v) (newLRUCache capacity) kvs) =
     take (nat (lru_cap capacity)) (recency kvs)"
proof (induction kvs rule: rev_induct)
  case Nil
  then show ?case by (simp add: recency_def)
next
  case (snoc kv kvs)
  let ?c = "foldl (\<lambda>c (k, v). lru_put c k v) (newLRUCache capacity) kvs"
  have run: "?c = foldl lru_step (newLRUCache capacity) (map (\<lambda>(k, v). Put k v) kvs)"
    by (simp add: foldl_map case_prod_unfold)
  obtain k v where kv: "kv = (k, v)" by force
  have inv: "lru_inv ?c" "lru_capacity ?c = lru_cap capacity"
    unfolding run using lru_run_inv by blast+
  obtain n where n: "nat (lru_cap capacity) = Suc n"
    by (metis lru_cap_def nat_eq_iff not0_implies_Suc not_le zero_less_nat_eq zero_less_numeral
        linorder_neq_iff)
  show ?case
    using lru_put_list [OF inv(1), of k v] take_filter_key [OF recency_distinct, of n k kvs]
    by (simp add: kv inv(2) snoc.IH n alist_store_def) (simp add: recency_def)
qed

end
