(* ===== verification/Auth_Blocker.thy ===== *)
theory Auth_Blocker
  imports Lru_Cache Config
begin

text \<open>
  \<open>src/pkg/auth/blocker.go\<close>: the failure records of IP addresses, an LRU cache of them in memory and
  all of them in a bbolt database. Records live in a heap (\<open>ab_recs\<close>): the cache holds addresses and
  \<open>RecordFailure\<close> changes the record it got in place, as the code's pointers do.

  The database (bbolt, third-party) and the text of a record's JSON (\<open>encoding/json\<close> with
  \<open>time.Time\<close>) are the parameter \<open>E\<close>; \<open>store_laws\<close> states what is documented of them. \<open>time.Now()\<close>
  is the argument \<open>now\<close> of every operation that reads the clock; times are instants, so the
  monotonic reading a \<open>time.Time\<close> may carry is taken to agree with the wall clock.
\<close>

section \<open>Failure records\<close>

abbreviation defaultMaxFailures :: int where "defaultMaxFailures \<equiv> 3"
abbreviation defaultBlockDuration :: duration where "defaultBlockDuration \<equiv> 600 * second"
abbreviation defaultCleanInterval :: duration where "defaultCleanInterval \<equiv> 60 * second"
abbreviation defaultRecordTTL :: duration where "defaultRecordTTL \<equiv> 86400 * second"
abbreviation bucketName :: string where "bucketName \<equiv> ''auth_failures''"

record AuthFailureRecord =
  FailCount :: int
  LastFailAt :: gotime
  BlockedUntil :: gotime

definition zero_record :: AuthFailureRecord where
  "zero_record = \<lparr>FailCount = 0, LastFailAt = 0, BlockedUntil = 0\<rparr>"

definition record_IsBlocked :: "AuthFailureRecord \<Rightarrow> gotime \<Rightarrow> bool" where
  "record_IsBlocked r now \<longleftrightarrow> BlockedUntil r \<noteq> 0 \<and> now < BlockedUntil r"

text \<open>What one failure does to a record (the code writes the same deadline in both branches).\<close>

definition record_fail :: "int \<Rightarrow> duration \<Rightarrow> gotime \<Rightarrow> AuthFailureRecord \<Rightarrow> AuthFailureRecord" where
  "record_fail maxF dur now r0 =
     (let r = r0\<lparr>FailCount := int64 (FailCount r0 + 1), LastFailAt := now\<rparr>
      in if FailCount r \<ge> maxF then
           (if record_IsBlocked r now then r\<lparr>BlockedUntil := now + dur\<rparr>
            else r\<lparr>BlockedUntil := now + dur\<rparr>)
         else r)"

text \<open>The test of \<open>cleanExpired\<close>: not blocked, and no failure for \<open>recordTTL\<close>.\<close>

definition record_expired :: "duration \<Rightarrow> gotime \<Rightarrow> AuthFailureRecord \<Rightarrow> bool" where
  "record_expired ttl now r =
     (let cutoff = now + (- ttl)
      in if record_IsBlocked r now then False else LastFailAt r = 0 \<or> LastFailAt r < cutoff)"

section \<open>The database and the JSON codec\<close>

record 'd store_env =
  bb_open :: "string \<Rightarrow> 'd option"                     \<comment> \<open>\<open>bbolt.Open\<close>\<close>
  bb_close :: "'d \<Rightarrow> 'd"
  bb_view :: "'d \<Rightarrow> bool"                              \<comment> \<open>\<open>db.View\<close> runs its function\<close>
  bb_update :: "'d \<Rightarrow> ('d \<Rightarrow> 'd option) \<Rightarrow> 'd \<times> bool"  \<comment> \<open>\<open>db.Update\<close>; no error\<close>
  bb_bucket :: "'d \<Rightarrow> string \<Rightarrow> bool"                  \<comment> \<open>\<open>tx.Bucket\<close> is not nil\<close>
  bb_create :: "'d \<Rightarrow> string \<Rightarrow> 'd option"             \<comment> \<open>\<open>CreateBucketIfNotExists\<close>\<close>
  bb_get :: "'d \<Rightarrow> string \<Rightarrow> string \<rightharpoonup> string"
  bb_put :: "'d \<Rightarrow> string \<Rightarrow> string \<Rightarrow> string \<Rightarrow> 'd option"
  bb_delete :: "'d \<Rightarrow> string \<Rightarrow> string \<Rightarrow> 'd option"
  bb_entries :: "'d \<Rightarrow> string \<Rightarrow> (string \<times> string) list" \<comment> \<open>the cursor, first to last\<close>
  js_marshal :: "AuthFailureRecord \<Rightarrow> string option"
  js_unmarshal :: "string \<Rightarrow> AuthFailureRecord option"

section \<open>The blocker\<close>

record AuthBlockerConfig =
  bc_DBPath :: string
  bc_MaxFailures :: int
  bc_BlockDuration :: duration
  bc_LRUSize :: int
  bc_CleanInterval :: duration
  bc_RecordTTL :: duration

record 'd AuthBlocker =
  ab_db :: "'d option"
  ab_lru :: "nat lruCache"
  ab_maxFailures :: int
  ab_blockDur :: duration
  ab_recordTTL :: duration
  ab_cleanInter :: duration
  ab_stopped :: bool                       \<comment> \<open>the \<open>stop\<close> channel is closed\<close>
  ab_recs :: "nat \<Rightarrow> AuthFailureRecord"    \<comment> \<open>the heap of records\<close>
  ab_nextRec :: nat

datatype blocker_error = CreateDirError | OpenError | CreateBucketError

definition blocker_defaults :: "AuthBlockerConfig \<Rightarrow> AuthBlockerConfig" where
  "blocker_defaults cfg = cfg\<lparr>
     bc_MaxFailures := (if bc_MaxFailures cfg \<le> 0 then defaultMaxFailures else bc_MaxFailures cfg),
     bc_BlockDuration := (if bc_BlockDuration cfg \<le> 0 then defaultBlockDuration else bc_BlockDuration cfg),
     bc_LRUSize := (if bc_LRUSize cfg \<le> 0 then defaultLRUSize else bc_LRUSize cfg),
     bc_CleanInterval := (if bc_CleanInterval cfg \<le> 0 then defaultCleanInterval else bc_CleanInterval cfg),
     bc_RecordTTL := (if bc_RecordTTL cfg \<le> 0 then defaultRecordTTL else bc_RecordTTL cfg)\<rparr>"

text \<open>\<open>mkdir\<close>: the directory of the path exists or \<open>os.MkdirAll\<close> made it (true for \<open>"."\<close>, where the
  code does not call it).\<close>

definition NewAuthBlocker ::
  "'d store_env \<Rightarrow> (string \<Rightarrow> bool) \<Rightarrow> AuthBlockerConfig \<Rightarrow> blocker_error + 'd AuthBlocker" where
  "NewAuthBlocker E mkdir cfg0 =
     (let cfg = blocker_defaults cfg0;
          b = \<lparr>ab_db = None, ab_lru = newLRUCache (bc_LRUSize cfg), ab_maxFailures = bc_MaxFailures cfg,
               ab_blockDur = bc_BlockDuration cfg, ab_recordTTL = bc_RecordTTL cfg,
               ab_cleanInter = bc_CleanInterval cfg, ab_stopped = False,
               ab_recs = (\<lambda>_. zero_record), ab_nextRec = 0\<rparr>
      in if bc_DBPath cfg \<noteq> '''' then
           (if \<not> mkdir (bc_DBPath cfg) then Inl CreateDirError
            else (case bb_open E (bc_DBPath cfg) of
                    None \<Rightarrow> Inl OpenError
                  | Some d \<Rightarrow>
                      (case bb_update E d (\<lambda>tx. bb_create E tx bucketName) of
                         (d', ok) \<Rightarrow> if \<not> ok then Inl CreateBucketError
                                     else Inr (b\<lparr>ab_db := Some d'\<rparr>))))
         else Inr b)"

definition alloc_record :: "AuthFailureRecord \<Rightarrow> 'd AuthBlocker \<Rightarrow> nat \<times> 'd AuthBlocker" where
  "alloc_record r b =
     (ab_nextRec b, b\<lparr>ab_recs := (ab_recs b)(ab_nextRec b := r), ab_nextRec := Suc (ab_nextRec b)\<rparr>)"

text \<open>The bytes \<open>getRecord\<close> reads: empty (nil) when the bucket or the key is missing.\<close>

definition db_read :: "'d store_env \<Rightarrow> 'd \<Rightarrow> string \<Rightarrow> string" where
  "db_read E d ip =
     (if bb_view E d \<and> bb_bucket E d bucketName
      then (case bb_get E d bucketName ip of None \<Rightarrow> '''' | Some data \<Rightarrow> data) else '''')"

definition getRecord :: "'d store_env \<Rightarrow> 'd AuthBlocker \<Rightarrow> string \<Rightarrow> nat option \<times> 'd AuthBlocker" where
  "getRecord E b ip =
     (case lru_get (ab_lru b) ip of
        (Some a, l) \<Rightarrow> (Some a, b\<lparr>ab_lru := l\<rparr>)
      | (None, l) \<Rightarrow>
          (let b1 = b\<lparr>ab_lru := l\<rparr>
           in case ab_db b1 of
                None \<Rightarrow> (None, b1)
              | Some d \<Rightarrow>
                  (let data = db_read E d ip
                   in if data = '''' then (None, b1)
                      else (case js_unmarshal E data of
                              None \<Rightarrow> (None, b1)
                            | Some r \<Rightarrow>
                                (case alloc_record r b1 of
                                   (a, b2) \<Rightarrow> (Some a, b2\<lparr>ab_lru := lru_put (ab_lru b2) ip a\<rparr>))))))"

definition putRecord :: "'d store_env \<Rightarrow> 'd AuthBlocker \<Rightarrow> string \<Rightarrow> AuthFailureRecord \<Rightarrow> 'd AuthBlocker" where
  "putRecord E b ip r =
     (case ab_db b of
        None \<Rightarrow> b
      | Some d \<Rightarrow>
          (case js_marshal E r of
             None \<Rightarrow> b
           | Some data \<Rightarrow>
               b\<lparr>ab_db := Some (fst (bb_update E d (\<lambda>tx.
                   case bb_create E tx bucketName of
                     None \<Rightarrow> None
                   | Some tx' \<Rightarrow> bb_put E tx' bucketName ip data)))\<rparr>))"

definition deleteRecord :: "'d store_env \<Rightarrow> 'd AuthBlocker \<Rightarrow> string \<Rightarrow> 'd AuthBlocker" where
  "deleteRecord E b ip =
     (case ab_db b of
        None \<Rightarrow> b
      | Some d \<Rightarrow>
          b\<lparr>ab_db := Some (fst (bb_update E d (\<lambda>tx.
              if \<not> bb_bucket E tx bucketName then Some tx else bb_delete E tx bucketName ip)))\<rparr>)"

text \<open>\<open>iterateAll\<close>: a fold over the cursor's entries that skips what does not decode and stops when
  the callback returns false.\<close>

fun iter_entries ::
  "'d store_env \<Rightarrow> (string \<Rightarrow> AuthFailureRecord \<Rightarrow> 's \<Rightarrow> 's \<times> bool) \<Rightarrow> (string \<times> string) list \<Rightarrow> 's \<Rightarrow> 's" where
  "iter_entries E fn [] s = s"
| "iter_entries E fn ((k, v) # kvs) s =
     (if v = '''' then iter_entries E fn kvs s
      else (case js_unmarshal E v of
              None \<Rightarrow> iter_entries E fn kvs s
            | Some r \<Rightarrow>
                (case fn k r s of
                   (s', go) \<Rightarrow> if \<not> go then s' else iter_entries E fn kvs s')))"

definition iterateAll ::
  "'d store_env \<Rightarrow> 'd AuthBlocker \<Rightarrow> (string \<Rightarrow> AuthFailureRecord \<Rightarrow> 's \<Rightarrow> 's \<times> bool) \<Rightarrow> 's \<Rightarrow> 's" where
  "iterateAll E b fn s =
     (case ab_db b of
        None \<Rightarrow> s
      | Some d \<Rightarrow>
          if bb_view E d \<and> bb_bucket E d bucketName
          then iter_entries E fn (bb_entries E d bucketName) s else s)"

definition IsBlocked :: "'d store_env \<Rightarrow> string \<Rightarrow> gotime \<Rightarrow> 'd AuthBlocker \<Rightarrow> bool \<times> 'd AuthBlocker" where
  "IsBlocked E ip now b =
     (case getRecord E b ip of
        (None, b') \<Rightarrow> (False, b')
      | (Some a, b') \<Rightarrow> (record_IsBlocked (ab_recs b' a) now, b'))"

text \<open>\<open>RecordFailure\<close> in its four steps, each atomic in the code (a lock or a transaction): fetch the
  record or make one, change it in place, store it, cache it.\<close>

definition rf_load :: "'d store_env \<Rightarrow> string \<Rightarrow> 'd AuthBlocker \<Rightarrow> nat \<times> 'd AuthBlocker" where
  "rf_load E ip b =
     (case getRecord E b ip of
        (Some a, b') \<Rightarrow> (a, b')
      | (None, b') \<Rightarrow> alloc_record zero_record b')"

definition rf_bump :: "gotime \<Rightarrow> nat \<Rightarrow> 'd AuthBlocker \<Rightarrow> 'd AuthBlocker" where
  "rf_bump now a b =
     b\<lparr>ab_recs := (ab_recs b)(a := record_fail (ab_maxFailures b) (ab_blockDur b) now (ab_recs b a))\<rparr>"

definition rf_store :: "'d store_env \<Rightarrow> string \<Rightarrow> nat \<Rightarrow> 'd AuthBlocker \<Rightarrow> 'd AuthBlocker" where
  "rf_store E ip a b = putRecord E b ip (ab_recs b a)"

definition rf_cache :: "string \<Rightarrow> nat \<Rightarrow> 'd AuthBlocker \<Rightarrow> 'd AuthBlocker" where
  "rf_cache ip a b = b\<lparr>ab_lru := lru_put (ab_lru b) ip a\<rparr>"

definition RecordFailure :: "'d store_env \<Rightarrow> string \<Rightarrow> gotime \<Rightarrow> 'd AuthBlocker \<Rightarrow> 'd AuthBlocker" where
  "RecordFailure E ip now b =
     (case rf_load E ip b of
        (a, b1) \<Rightarrow> rf_cache ip a (rf_store E ip a (rf_bump now a b1)))"

definition ResetFailure :: "'d store_env \<Rightarrow> string \<Rightarrow> 'd AuthBlocker \<Rightarrow> 'd AuthBlocker" where
  "ResetFailure E ip b =
     (let b1 = deleteRecord E b ip in b1\<lparr>ab_lru := lru_remove (ab_lru b1) ip\<rparr>)"

text \<open>\<open>Close\<close>: closing the closed channel again is a panic (\<open>None\<close>).\<close>

definition blocker_Close :: "'d store_env \<Rightarrow> 'd AuthBlocker \<Rightarrow> 'd AuthBlocker option" where
  "blocker_Close E b =
     (if ab_stopped b then None
      else Some (b\<lparr>ab_stopped := True, ab_db := map_option (bb_close E) (ab_db b)\<rparr>))"

definition BlockedCount :: "'d store_env \<Rightarrow> gotime \<Rightarrow> 'd AuthBlocker \<Rightarrow> int" where
  "BlockedCount E now b =
     iterateAll E b (\<lambda>ip r count. (if record_IsBlocked r now then count + 1 else count, True)) 0"

definition expired_ips :: "'d store_env \<Rightarrow> gotime \<Rightarrow> 'd AuthBlocker \<Rightarrow> string list" where
  "expired_ips E now b =
     iterateAll E b
       (\<lambda>ip r toDelete. (if record_expired (ab_recordTTL b) now r then toDelete @ [ip] else toDelete, True)) []"

definition cleanExpired :: "'d store_env \<Rightarrow> gotime \<Rightarrow> 'd AuthBlocker \<Rightarrow> 'd AuthBlocker" where
  "cleanExpired E now b =
     (if ab_db b = None then b
      else foldl (\<lambda>b ip. let b1 = deleteRecord E b ip in b1\<lparr>ab_lru := lru_remove (ab_lru b1) ip\<rparr>)
             b (expired_ips E now b))"

text \<open>\<open>cleanLoop\<close> on what its \<open>select\<close> takes: it cleans on a tick, and returns once \<open>stop\<close> is closed.\<close>

datatype clean_event = Tick gotime | StopClosed

fun cleanLoop :: "'d store_env \<Rightarrow> clean_event list \<Rightarrow> 'd AuthBlocker \<Rightarrow> 'd AuthBlocker" where
  "cleanLoop E [] b = b"
| "cleanLoop E (StopClosed # es) b = b"
| "cleanLoop E (Tick now # es) b = cleanLoop E es (cleanExpired E now b)"

section \<open>What is documented of the database and the codec\<close>

text \<open>A key bbolt accepts, a time whose year RFC 3339 can print, a record JSON can carry.\<close>

definition valid_ip :: "string \<Rightarrow> bool" where
  "valid_ip k \<longleftrightarrow> k \<noteq> '''' \<and> length k \<le> 32768"

definition time_ok :: "gotime \<Rightarrow> bool" where
  "time_ok t \<longleftrightarrow> 0 \<le> t \<and> t < 315537897600 * second"

definition rec_ok :: "AuthFailureRecord \<Rightarrow> bool" where
  "rec_ok r \<longleftrightarrow> time_ok (LastFailAt r) \<and> time_ok (BlockedUntil r) \<and>
     - 9223372036854775808 \<le> FailCount r \<and> FailCount r \<le> max_int64"

text \<open>\<open>ok d\<close>: the database \<open>d\<close> is open, writable and has the bucket. Then transactions run and
  commit, a put is read back and touches no other key, a delete removes, the cursor lists every
  pair once, and decoding what was encoded gives the record back.\<close>

definition store_laws :: "'d store_env \<Rightarrow> ('d \<Rightarrow> bool) \<Rightarrow> bool" where
  "store_laws E ok \<longleftrightarrow>
     (\<forall>d. ok d \<longrightarrow> bb_view E d \<and> bb_bucket E d bucketName \<and> bb_create E d bucketName = Some d) \<and>
     (\<forall>d f d'. ok d \<and> f d = Some d' \<and> ok d' \<longrightarrow> bb_update E d f = (d', True)) \<and>
     (\<forall>d k v. ok d \<and> valid_ip k \<and> length v \<le> 2147483646 \<longrightarrow>
        (\<exists>d'. bb_put E d bucketName k v = Some d' \<and> ok d' \<and>
              bb_get E d' bucketName = (bb_get E d bucketName)(k \<mapsto> v))) \<and>
     (\<forall>d k. ok d \<longrightarrow>
        (\<exists>d'. bb_delete E d bucketName k = Some d' \<and> ok d' \<and>
              bb_get E d' bucketName = (bb_get E d bucketName)(k := None))) \<and>
     (\<forall>d. ok d \<longrightarrow> distinct (map fst (bb_entries E d bucketName)) \<and>
        map_of (bb_entries E d bucketName) = bb_get E d bucketName) \<and>
     (\<forall>r. rec_ok r \<longrightarrow>
        (\<exists>s. js_marshal E r = Some s \<and> s \<noteq> '''' \<and> length s \<le> 2147483646 \<and> js_unmarshal E s = Some r))"

lemma store_lawsD:
  assumes "store_laws E ok"
  shows "ok d \<Longrightarrow> bb_view E d \<and> bb_bucket E d bucketName \<and> bb_create E d bucketName = Some d"
    and "ok d \<Longrightarrow> f d = Some d' \<Longrightarrow> ok d' \<Longrightarrow> bb_update E d f = (d', True)"
    and "ok d \<Longrightarrow> valid_ip k \<Longrightarrow> length v \<le> 2147483646 \<Longrightarrow>
           \<exists>d'. bb_put E d bucketName k v = Some d' \<and> ok d' \<and>
                bb_get E d' bucketName = (bb_get E d bucketName)(k \<mapsto> v)"
    and "ok d \<Longrightarrow> \<exists>d'. bb_delete E d bucketName k = Some d' \<and> ok d' \<and>
                bb_get E d' bucketName = (bb_get E d bucketName)(k := None)"
    and "ok d \<Longrightarrow> distinct (map fst (bb_entries E d bucketName)) \<and>
           map_of (bb_entries E d bucketName) = bb_get E d bucketName"
    and "rec_ok r \<Longrightarrow> \<exists>s. js_marshal E r = Some s \<and> s \<noteq> '''' \<and> length s \<le> 2147483646 \<and>
           js_unmarshal E s = Some r"
  using assms unfolding store_laws_def by blast+

text \<open>The records on disk, and what the blocker knows of an address: its cached record or else the
  one on disk.\<close>

definition disk :: "'d store_env \<Rightarrow> 'd \<Rightarrow> string \<rightharpoonup> AuthFailureRecord" where
  "disk E d ip = (let data = db_read E d ip in if data = '''' then None else js_unmarshal E data)"

definition cached :: "'d AuthBlocker \<Rightarrow> string \<rightharpoonup> AuthFailureRecord" where
  "cached b ip = map_option (ab_recs b) (lru_content (ab_lru b) ip)"

definition blocker_view :: "'d store_env \<Rightarrow> 'd AuthBlocker \<Rightarrow> string \<rightharpoonup> AuthFailureRecord" where
  "blocker_view E b ip =
     (case cached b ip of
        Some r \<Rightarrow> Some r
      | None \<Rightarrow> (case ab_db b of None \<Rightarrow> None | Some d \<Rightarrow> disk E d ip))"

lemma disk_put:
  assumes laws: "store_laws E ok" and "ok d" "valid_ip ip" "rec_ok r" "ab_db b = Some d"
  shows "\<exists>d'. putRecord E b ip r = b\<lparr>ab_db := Some d'\<rparr> \<and> ok d' \<and> disk E d' = (disk E d)(ip \<mapsto> r)"
proof -
  obtain s where s: "js_marshal E r = Some s" "s \<noteq> ''''" "length s \<le> 2147483646" "js_unmarshal E s = Some r"
    using store_lawsD(6) [OF laws assms(4)] by blast
  obtain d' where d': "bb_put E d bucketName ip s = Some d'" "ok d'"
      "bb_get E d' bucketName = (bb_get E d bucketName)(ip \<mapsto> s)"
    using store_lawsD(3) [OF laws assms(2,3) s(3)] by blast
  have "bb_update E d (\<lambda>tx. case bb_create E tx bucketName of None \<Rightarrow> None
      | Some tx' \<Rightarrow> bb_put E tx' bucketName ip s) = (d', True)"
    by (rule store_lawsD(2) [OF laws \<open>ok d\<close> _ d'(2)]) (simp add: store_lawsD(1) [OF laws \<open>ok d\<close>] d'(1))
  moreover have "disk E d' = (disk E d)(ip \<mapsto> r)"
    using store_lawsD(1) [OF laws \<open>ok d\<close>] store_lawsD(1) [OF laws d'(2)] d'(3) s
    by (auto simp: disk_def db_read_def fun_eq_iff)
  ultimately show ?thesis
    using assms(5) s(1) d'(2) by (auto simp: putRecord_def)
qed

lemma disk_delete:
  assumes laws: "store_laws E ok" and "ok d" "ab_db b = Some d"
  shows "\<exists>d'. deleteRecord E b ip = b\<lparr>ab_db := Some d'\<rparr> \<and> ok d' \<and> disk E d' = (disk E d)(ip := None)"
proof -
  obtain d' where d': "bb_delete E d bucketName ip = Some d'" "ok d'"
      "bb_get E d' bucketName = (bb_get E d bucketName)(ip := None)"
    using store_lawsD(4) [OF laws assms(2)] by blast
  have "bb_update E d (\<lambda>tx. if \<not> bb_bucket E tx bucketName then Some tx
      else bb_delete E tx bucketName ip) = (d', True)"
    by (rule store_lawsD(2) [OF laws \<open>ok d\<close> _ d'(2)]) (simp add: store_lawsD(1) [OF laws \<open>ok d\<close>] d'(1))
  moreover have "disk E d' = (disk E d)(ip := None)"
    using store_lawsD(1) [OF laws \<open>ok d\<close>] store_lawsD(1) [OF laws d'(2)] d'(3)
    by (auto simp: disk_def db_read_def fun_eq_iff)
  ultimately show ?thesis
    using assms(3) d'(2) by (auto simp: deleteRecord_def)
qed

section \<open>The invariant of a blocker with a database\<close>

text \<open>Write-through: every cached record is the one on disk, and no record is cached for two
  addresses.\<close>

definition coherent :: "'d store_env \<Rightarrow> ('d \<Rightarrow> bool) \<Rightarrow> 'd AuthBlocker \<Rightarrow> 'd \<Rightarrow> bool" where
  "coherent E ok b d \<longleftrightarrow>
     store_laws E ok \<and> lru_inv (ab_lru b) \<and> ab_db b = Some d \<and> ok d \<and>
     (\<forall>k1 k2 a. lru_content (ab_lru b) k1 = Some a \<longrightarrow> lru_content (ab_lru b) k2 = Some a \<longrightarrow> k1 = k2) \<and>
     (\<forall>k r. disk E d k = Some r \<longrightarrow> rec_ok r) \<and>
     (\<forall>k a. lru_content (ab_lru b) k = Some a \<longrightarrow>
        a < ab_nextRec b \<and> disk E d k = Some (ab_recs b a))"

definition blocker_inv :: "'d store_env \<Rightarrow> ('d \<Rightarrow> bool) \<Rightarrow> 'd AuthBlocker \<Rightarrow> bool" where
  "blocker_inv E ok b \<longleftrightarrow> (\<exists>d. coherent E ok b d)"

lemma blocker_invI:
  assumes "store_laws E ok" "lru_inv (ab_lru b)" "ab_db b = Some d" "ok d"
    and "\<And>k1 k2 a. lru_content (ab_lru b) k1 = Some a \<Longrightarrow> lru_content (ab_lru b) k2 = Some a \<Longrightarrow> k1 = k2"
    and "\<And>k r. disk E d k = Some r \<Longrightarrow> rec_ok r"
    and "\<And>k a. lru_content (ab_lru b) k = Some a \<Longrightarrow> a < ab_nextRec b \<and> disk E d k = Some (ab_recs b a)"
  shows "blocker_inv E ok b"
  unfolding blocker_inv_def coherent_def using assms by blast

lemma coherentD:
  assumes "coherent E ok b d"
  shows "store_laws E ok" "lru_inv (ab_lru b)" "ab_db b = Some d" "ok d"
    and "\<And>k1 k2 a. lru_content (ab_lru b) k1 = Some a \<Longrightarrow> lru_content (ab_lru b) k2 = Some a \<Longrightarrow> k1 = k2"
    and "\<And>k r. disk E d k = Some r \<Longrightarrow> rec_ok r"
    and "\<And>k a. lru_content (ab_lru b) k = Some a \<Longrightarrow> a < ab_nextRec b \<and> disk E d k = Some (ab_recs b a)"
  using assms unfolding coherent_def by blast+

lemma coherent_of_inv: "blocker_inv E ok b \<Longrightarrow> \<exists>d. coherent E ok b d"
  by (simp add: blocker_inv_def)

text \<open>So the view is what is on disk.\<close>

lemma blocker_view_disk:
  assumes "blocker_inv E ok b" "ab_db b = Some d"
  shows "blocker_view E b = disk E d"
proof
  fix ip
  obtain d' where c: "coherent E ok b d'" using coherent_of_inv [OF assms(1)] by blast
  then have "d' = d" using coherentD(3) [OF c] assms(2) by simp
  then show "blocker_view E b ip = disk E d ip"
    using coherentD(7) [OF c, of ip] assms(2)
    by (cases "lru_content (ab_lru b) ip") (simp_all add: blocker_view_def cached_def)
qed

definition same_params :: "'d AuthBlocker \<Rightarrow> 'd AuthBlocker \<Rightarrow> bool" where
  "same_params b b' \<longleftrightarrow>
     ab_maxFailures b' = ab_maxFailures b \<and> ab_blockDur b' = ab_blockDur b \<and>
     ab_recordTTL b' = ab_recordTTL b \<and> ab_cleanInter b' = ab_cleanInter b \<and>
     ab_stopped b' = ab_stopped b \<and> lru_capacity (ab_lru b') = lru_capacity (ab_lru b)"

lemma same_params_refl [simp]: "same_params b b"
  by (simp add: same_params_def)

lemma same_params_trans: "same_params a b \<Longrightarrow> same_params b c \<Longrightarrow> same_params a c"
  by (simp add: same_params_def)

section \<open>The storage operations keep the invariant\<close>

lemma getRecord_correct:
  assumes inv: "blocker_inv E ok b" and get: "getRecord E b ip = (res, b')"
  shows "blocker_inv E ok b' \<and> ab_db b' = ab_db b \<and> same_params b b' \<and>
    (case res of
       None \<Rightarrow> blocker_view E b ip = None \<and> lru_content (ab_lru b') ip = None
     | Some a \<Rightarrow> lru_content (ab_lru b') ip = Some a \<and> blocker_view E b ip = Some (ab_recs b' a))"
proof -
  obtain d where c: "coherent E ok b d" using coherent_of_inv [OF inv] by blast
  note laws = coherentD(1) [OF c] and lru = coherentD(2) [OF c] and db = coherentD(3) [OF c]
    and ok = coherentD(4) [OF c] and uniq = coherentD(5) [OF c] and recs = coherentD(6) [OF c]
    and coh = coherentD(7) [OF c]
  have view: "blocker_view E b = disk E d"
    by (rule blocker_view_disk [OF inv db])
  obtain v l where vl: "lru_get (ab_lru b) ip = (v, l)" by fastforce
  have v: "v = lru_content (ab_lru b) ip" and l: "lru_inv l" "lru_content l = lru_content (ab_lru b)"
      "lru_capacity l = lru_capacity (ab_lru b)"
    using lru.get_value [OF lru, of ip] lru.get_cinv [OF lru, of ip] lru.get_content [OF lru, of ip]
      lru_capacity_kept(1) [of "ab_lru b" ip] by (simp_all add: vl)
  let ?b1 = "b\<lparr>ab_lru := l\<rparr>"
  have inv1: "blocker_inv E ok ?b1"
    by (rule blocker_invI [where d = d]) (use laws l db ok uniq recs coh in auto)
  show ?thesis
  proof (cases v)
    case (Some a)
    then have "res = Some a" "b' = ?b1" using get by (simp_all add: getRecord_def vl)
    then show ?thesis
      using inv1 Some v coh [of ip a] by (auto simp: same_params_def l view)
  next
    case None
    show ?thesis
    proof (cases "disk E d ip")
      case miss: None
      then have "res = None" "b' = ?b1"
        using get None db by (auto simp: getRecord_def vl disk_def Let_def split: if_splits)
      then show ?thesis
        using inv1 None v miss by (auto simp: same_params_def l view)
    next
      case (Some r)
      let ?a = "ab_nextRec b"
      let ?b2 = "?b1\<lparr>ab_recs := (ab_recs b)(?a := r), ab_nextRec := Suc ?a, ab_lru := lru_put l ip ?a\<rparr>"
      have res: "res = Some ?a" "b' = ?b2"
        using get None db Some
        by (auto simp: getRecord_def vl disk_def Let_def alloc_record_def split: if_splits)
      have fresh: "lru_content (ab_lru b) k \<noteq> Some ?a" for k
        using coh [of k ?a] by auto
      have "blocker_inv E ok ?b2"
      proof (rule blocker_invI [where d = d])
        show "lru_inv (ab_lru ?b2)" using lru.put_cinv [OF l(1)] by simp
        show "k1 = k2" if "lru_content (ab_lru ?b2) k1 = Some a" "lru_content (ab_lru ?b2) k2 = Some a" for k1 k2 a
          using that by (intro lru.unshared_put [OF l(1), of ip ?a k1 a k2]) (auto simp: l fresh intro: uniq)
        show "a < ab_nextRec ?b2 \<and> disk E d k = Some (ab_recs ?b2 a)"
          if "lru_content (ab_lru ?b2) k = Some a" for k a
          by (rule lru.entries_put [OF l(1), of _ ip ?a k a])
             (use that Some coh in \<open>auto simp: l less_Suc_eq\<close>)
      qed (use laws db ok recs in simp_all)
      then show ?thesis
        using lru.put_self [OF l(1)] l(3) by (simp add: res same_params_def view Some db)
    qed
  qed
qed

text \<open>After a lookup the cache may hold one more record, but the blocker knows the same.\<close>

lemma getRecord_view:
  assumes "blocker_inv E ok b" "getRecord E b ip = (res, b')"
  shows "blocker_view E b' = blocker_view E b"
proof -
  obtain d where "coherent E ok b d" using coherent_of_inv [OF assms(1)] by blast
  then have "ab_db b = Some d" by (rule coherentD)
  with getRecord_correct [OF assms] show ?thesis
    using blocker_view_disk [OF assms(1)] blocker_view_disk [of E ok b' d] by simp
qed

lemma IsBlocked_correct:
  assumes "blocker_inv E ok b"
  shows "fst (IsBlocked E ip now b) =
      (case blocker_view E b ip of None \<Rightarrow> False | Some r \<Rightarrow> record_IsBlocked r now)"
    and "blocker_inv E ok (snd (IsBlocked E ip now b))"
    and "blocker_view E (snd (IsBlocked E ip now b)) = blocker_view E b"
    and "same_params b (snd (IsBlocked E ip now b))"
    and "ab_db (snd (IsBlocked E ip now b)) = ab_db b"
proof -
  obtain res b' where g: "getRecord E b ip = (res, b')" by fastforce
  show "fst (IsBlocked E ip now b) =
      (case blocker_view E b ip of None \<Rightarrow> False | Some r \<Rightarrow> record_IsBlocked r now)"
    "blocker_inv E ok (snd (IsBlocked E ip now b))"
    "blocker_view E (snd (IsBlocked E ip now b)) = blocker_view E b"
    "same_params b (snd (IsBlocked E ip now b))"
    "ab_db (snd (IsBlocked E ip now b)) = ab_db b"
    using getRecord_correct [OF assms g] getRecord_view [OF assms g]
    by (auto simp: IsBlocked_def g split: option.splits)
qed

lemma ResetFailure_correct:
  assumes inv: "blocker_inv E ok b"
  shows "blocker_inv E ok (ResetFailure E ip b)"
    and "blocker_view E (ResetFailure E ip b) = (blocker_view E b)(ip := None)"
    and "same_params b (ResetFailure E ip b)"
proof -
  obtain d where c: "coherent E ok b d" using coherent_of_inv [OF inv] by blast
  note laws = coherentD(1) [OF c] and lru = coherentD(2) [OF c] and db = coherentD(3) [OF c]
    and ok = coherentD(4) [OF c] and uniq = coherentD(5) [OF c] and recs = coherentD(6) [OF c]
    and coh = coherentD(7) [OF c]
  obtain d' where d': "deleteRecord E b ip = b\<lparr>ab_db := Some d'\<rparr>" "ok d'" "disk E d' = (disk E d)(ip := None)"
    using disk_delete [OF laws ok db] by blast
  let ?b' = "b\<lparr>ab_db := Some d', ab_lru := lru_remove (ab_lru b) ip\<rparr>"
  have res: "ResetFailure E ip b = ?b'"
    by (simp add: ResetFailure_def d'(1) Let_def)
  have "blocker_inv E ok ?b'"
    by (rule blocker_invI [where d = d'])
       (use laws lru.remove_cinv [OF lru] d' uniq recs coh in
          \<open>auto simp: lru.remove_content [OF lru] split: if_splits\<close>)
  then show "blocker_inv E ok (ResetFailure E ip b)"
    and "blocker_view E (ResetFailure E ip b) = (blocker_view E b)(ip := None)"
    using blocker_view_disk [of E ok ?b' d'] blocker_view_disk [OF inv db] by (simp_all add: res d'(3))
  show "same_params b (ResetFailure E ip b)"
    by (simp add: res same_params_def)
qed

lemma rec_ok_zero: "rec_ok zero_record"
  by (simp add: rec_ok_def zero_record_def time_ok_def)

lemma rec_ok_fail:
  assumes "rec_ok r" "time_ok now" "time_ok (now + dur)"
  shows "rec_ok (record_fail maxF dur now r)"
  using assms int64_range [of "FailCount r + 1"] by (simp add: rec_ok_def record_fail_def Let_def)

text \<open>The record a failure of \<open>ip\<close> starts from.\<close>

definition prior_record :: "AuthFailureRecord option \<Rightarrow> AuthFailureRecord" where
  "prior_record r = (case r of None \<Rightarrow> zero_record | Some r \<Rightarrow> r)"

lemma rf_load_correct:
  assumes inv: "blocker_inv E ok b" and load: "rf_load E ip b = (a, b1)"
  shows "blocker_inv E ok b1" "ab_db b1 = ab_db b" "same_params b b1"
    and "a < ab_nextRec b1" "ab_recs b1 a = prior_record (blocker_view E b ip)"
    and "k \<noteq> ip \<Longrightarrow> lru_content (ab_lru b1) k \<noteq> Some a"
proof -
  obtain res b' where g: "getRecord E b ip = (res, b')" by fastforce
  note gr = getRecord_correct [OF inv g]
  then have inv': "blocker_inv E ok b'" by blast
  obtain d where c: "coherent E ok b' d" using coherent_of_inv [OF inv'] by blast
  note coh = coherentD(7) [OF c] and uniq = coherentD(5) [OF c]
  have "blocker_inv E ok b1 \<and> ab_db b1 = ab_db b \<and> same_params b b1 \<and> a < ab_nextRec b1 \<and>
    ab_recs b1 a = prior_record (blocker_view E b ip) \<and>
    (\<forall>k. k \<noteq> ip \<longrightarrow> lru_content (ab_lru b1) k \<noteq> Some a)"
  proof (cases res)
    case (Some a')
    then have "a' = a" "b' = b1" using load by (simp_all add: rf_load_def g)
    then show ?thesis using gr Some coh [of ip a] uniq [of _ a ip] by (auto simp: prior_record_def)
  next
    case None
    have a: "a = ab_nextRec b'"
      and b1: "b1 = b'\<lparr>ab_recs := (ab_recs b')(a := zero_record), ab_nextRec := Suc a\<rparr>"
      using load None by (auto simp: rf_load_def g alloc_record_def)
    have old: "x < a \<and> disk E d k = Some (ab_recs b' x)" if "lru_content (ab_lru b') k = Some x" for k x
      using coh [OF that] a by simp
    have "blocker_inv E ok b1"
    proof (rule blocker_invI [where d = d])
      show "x < ab_nextRec b1 \<and> disk E d k = Some (ab_recs b1 x)"
        if "lru_content (ab_lru b1) k = Some x" for k x
        using old [of k x] that by (simp add: b1)
    qed (use coherentD(1-4,6) [OF c] uniq in \<open>auto simp: b1\<close>)
    moreover have "lru_content (ab_lru b1) k \<noteq> Some a" for k
      using old [of k a] by (auto simp: b1)
    ultimately show ?thesis
      using gr None by (simp add: b1 prior_record_def same_params_def)
  qed
  then show "blocker_inv E ok b1" "ab_db b1 = ab_db b" "same_params b b1"
    and "a < ab_nextRec b1" "ab_recs b1 a = prior_record (blocker_view E b ip)"
    and "k \<noteq> ip \<Longrightarrow> lru_content (ab_lru b1) k \<noteq> Some a"
    by blast+
qed

lemma RecordFailure_correct:
  assumes inv: "blocker_inv E ok b" and ip: "valid_ip ip"
    and now: "time_ok now" "time_ok (now + ab_blockDur b)"
  shows "blocker_inv E ok (RecordFailure E ip now b)"
    and "blocker_view E (RecordFailure E ip now b) =
      (blocker_view E b)(ip \<mapsto>
         record_fail (ab_maxFailures b) (ab_blockDur b) now (prior_record (blocker_view E b ip)))"
    and "same_params b (RecordFailure E ip now b)"
proof -
  obtain a b1 where load: "rf_load E ip b = (a, b1)" by fastforce
  note l = rf_load_correct [OF inv load]
  obtain d where c: "coherent E ok b1 d" using coherent_of_inv [OF l(1)] by blast
  note lru = coherentD(2) [OF c] and db = coherentD(3) [OF c]
  have view: "blocker_view E b = disk E d"
    by (rule blocker_view_disk [OF inv]) (use db l(2) in simp)
  let ?r = "record_fail (ab_maxFailures b) (ab_blockDur b) now (prior_record (blocker_view E b ip))"
  have "rec_ok (prior_record (blocker_view E b ip))"
    using coherentD(6) [OF c, of ip] rec_ok_zero by (simp add: view prior_record_def split: option.splits)
  then have r: "rec_ok ?r" by (rule rec_ok_fail [OF _ now])
  let ?b2 = "b1\<lparr>ab_recs := (ab_recs b1)(a := ?r)\<rparr>"
  have bump: "rf_bump now a b1 = ?b2"
    using l(3,5) by (simp add: rf_bump_def same_params_def)
  obtain d' where d': "putRecord E ?b2 ip ?r = ?b2\<lparr>ab_db := Some d'\<rparr>" "ok d'" "disk E d' = (disk E d)(ip \<mapsto> ?r)"
    using disk_put [OF coherentD(1,4) [OF c] ip r, of ?b2] db by auto
  let ?b3 = "?b2\<lparr>ab_db := Some d', ab_lru := lru_put (ab_lru b1) ip a\<rparr>"
  have res: "RecordFailure E ip now b = ?b3"
    by (simp add: RecordFailure_def load bump rf_store_def rf_cache_def d'(1))
  have inv3: "blocker_inv E ok ?b3"
  proof (rule blocker_invI [where d = d'])
    show "lru_inv (ab_lru ?b3)" using lru.put_cinv [OF lru] by simp
    show "k1 = k2" if "lru_content (ab_lru ?b3) k1 = Some x" "lru_content (ab_lru ?b3) k2 = Some x" for k1 k2 x
      using that by (intro lru.unshared_put [OF lru, of ip a k1 x k2]) (auto dest: l(6) intro: coherentD(5) [OF c])
    show "x < ab_nextRec ?b3 \<and> disk E d' k = Some (ab_recs ?b3 x)"
      if "lru_content (ab_lru ?b3) k = Some x" for k x
      by (rule lru.entries_put [OF lru, of _ ip a k x])
         (use that l(4,6) coherentD(7) [OF c] in \<open>auto simp: d'(3)\<close>)
    show "rec_ok r'" if "disk E d' k = Some r'" for k r'
      using that r coherentD(6) [OF c] by (auto simp: d'(3) split: if_splits)
  qed (use coherentD(1) [OF c] d'(2) in simp_all)
  then show "blocker_inv E ok (RecordFailure E ip now b)"
    and "blocker_view E (RecordFailure E ip now b) = (blocker_view E b)(ip \<mapsto> ?r)"
    using blocker_view_disk [OF inv3, of d'] by (simp_all add: res view d'(3))
  show "same_params b (RecordFailure E ip now b)"
    using l(3) by (simp add: res same_params_def)
qed

section \<open>Iteration, counting and cleaning\<close>

fun decode_entries :: "'d store_env \<Rightarrow> (string \<times> string) list \<Rightarrow> (string \<times> AuthFailureRecord) list" where
  "decode_entries E [] = []"
| "decode_entries E ((k, v) # kvs) =
     (if v = '''' then decode_entries E kvs
      else (case js_unmarshal E v of
              None \<Rightarrow> decode_entries E kvs
            | Some r \<Rightarrow> (k, r) # decode_entries E kvs))"

lemma iter_entries_all:
  assumes "\<And>k r s. fn k r s = (step k r s, True)"
  shows "iter_entries E fn kvs s = foldl (\<lambda>s (k, r). step k r s) s (decode_entries E kvs)"
  by (induction E kvs arbitrary: s rule: decode_entries.induct) (auto simp: assms split: option.splits)

lemma decode_entries_keys: "set (map fst (decode_entries E kvs)) \<subseteq> set (map fst kvs)"
  by (induction E kvs rule: decode_entries.induct) (auto split: option.splits)

lemma decode_entries_distinct: "distinct (map fst kvs) \<Longrightarrow> distinct (map fst (decode_entries E kvs))"
proof (induction E kvs rule: decode_entries.induct)
  case (2 E k v kvs)
  have "k \<notin> fst ` set (decode_entries E kvs)"
    using decode_entries_keys [of E kvs] "2.prems" by auto
  with 2 show ?case by (auto split: option.splits)
qed simp

lemma decode_entries_lookup:
  "distinct (map fst kvs) \<Longrightarrow>
     map_of (decode_entries E kvs) k =
       (case map_of kvs k of None \<Rightarrow> None | Some v \<Rightarrow> if v = '''' then None else js_unmarshal E v)"
proof (induction E kvs rule: decode_entries.induct)
  case (2 E k' v kvs)
  have "k' \<notin> fst ` set (decode_entries E kvs)"
    using decode_entries_keys [of E kvs] "2.prems" by auto
  then have "map_of (decode_entries E kvs) k' = None"
    by (simp add: map_of_eq_None_iff)
  with 2 show ?case by (auto split: option.splits)
qed simp

lemma decode_entries_disk:
  assumes "coherent E ok b d"
  shows "map_of (decode_entries E (bb_entries E d bucketName)) = disk E d"
    and "distinct (map fst (decode_entries E (bb_entries E d bucketName)))"
  using store_lawsD(1,5) [OF coherentD(1) [OF assms] coherentD(4) [OF assms]]
  by (auto simp: decode_entries_lookup decode_entries_distinct disk_def db_read_def fun_eq_iff split: option.splits)

lemma iterateAll_disk:
  assumes "coherent E ok b d" "\<And>k r s. fn k r s = (step k r s, True)"
  shows "iterateAll E b fn s =
    foldl (\<lambda>s (k, r). step k r s) s (decode_entries E (bb_entries E d bucketName))"
  using store_lawsD(1) [OF coherentD(1) [OF assms(1)] coherentD(4) [OF assms(1)]] coherentD(3) [OF assms(1)]
  by (simp add: iterateAll_def iter_entries_all [OF assms(2)])

lemma foldl_count:
  "foldl (\<lambda>c (k, r). if P r then c + 1 else c) c xs = c + int (length (filter (\<lambda>(k, r). P r) xs))"
  by (induction xs arbitrary: c) (auto split: prod.splits)

lemma foldl_collect:
  "foldl (\<lambda>ks (k, r). if P r then ks @ [k] else ks) ks xs = ks @ map fst (filter (\<lambda>(k, r). P r) xs)"
  by (induction xs arbitrary: ks) (auto split: prod.splits)

lemma keys_filter_map_of:
  "distinct (map fst xs) \<Longrightarrow>
     set (map fst (filter (\<lambda>(k, r). P r) xs)) = {k. \<exists>r. map_of xs k = Some r \<and> P r}"
  by (auto simp: image_iff split: prod.splits dest: map_of_SomeD)

lemma expired_ips_correct:
  assumes "blocker_inv E ok b"
  shows "set (expired_ips E now b) =
    {ip. \<exists>r. blocker_view E b ip = Some r \<and> record_expired (ab_recordTTL b) now r}"
proof -
  obtain d where c: "coherent E ok b d" using coherent_of_inv [OF assms] by blast
  let ?xs = "decode_entries E (bb_entries E d bucketName)"
  note xs = decode_entries_disk [OF c]
  have "expired_ips E now b =
      foldl (\<lambda>ks (ip, r). if record_expired (ab_recordTTL b) now r then ks @ [ip] else ks) [] ?xs"
    unfolding expired_ips_def by (rule iterateAll_disk [OF c]) (rule refl)
  then show ?thesis
    unfolding foldl_collect append_Nil keys_filter_map_of [OF xs(2)] xs(1)
      blocker_view_disk [OF assms coherentD(3) [OF c]] by (simp only:)
       (simp only: keys_filter_map_of [OF xs(2)] xs(1) blocker_view_disk [OF assms coherentD(3) [OF c]])
qed

lemma reset_all:
  assumes "blocker_inv E ok b"
  shows "blocker_inv E ok (foldl (\<lambda>b ip. ResetFailure E ip b) b ips) \<and>
    same_params b (foldl (\<lambda>b ip. ResetFailure E ip b) b ips) \<and>
    blocker_view E (foldl (\<lambda>b ip. ResetFailure E ip b) b ips) =
      (\<lambda>ip. if ip \<in> set ips then None else blocker_view E b ip)"
proof (induction ips rule: rev_induct)
  case Nil
  then show ?case by (simp add: assms)
next
  case (snoc ip ips)
  then show ?case
    using ResetFailure_correct [of E ok "foldl (\<lambda>b ip. ResetFailure E ip b) b ips" ip]
    by (auto simp: fun_eq_iff intro: same_params_trans)
qed

lemma cleanExpired_correct:
  assumes inv: "blocker_inv E ok b"
  shows "blocker_inv E ok (cleanExpired E now b)"
    and "blocker_view E (cleanExpired E now b) ip =
      (case blocker_view E b ip of
         None \<Rightarrow> None
       | Some r \<Rightarrow> if record_expired (ab_recordTTL b) now r then None else Some r)"
    and "same_params b (cleanExpired E now b)"
proof -
  obtain d where "coherent E ok b d" using coherent_of_inv [OF inv] by blast
  then have "ab_db b = Some d" by (rule coherentD)
  then have clean: "cleanExpired E now b = foldl (\<lambda>b ip. ResetFailure E ip b) b (expired_ips E now b)"
    unfolding cleanExpired_def ResetFailure_def by simp
  show "blocker_inv E ok (cleanExpired E now b)" "same_params b (cleanExpired E now b)"
    using reset_all [OF inv, of "expired_ips E now b"] by (simp_all add: clean)
  show "blocker_view E (cleanExpired E now b) ip =
      (case blocker_view E b ip of
         None \<Rightarrow> None
       | Some r \<Rightarrow> if record_expired (ab_recordTTL b) now r then None else Some r)"
    using reset_all [OF inv, of "expired_ips E now b"]
    by (auto simp: clean expired_ips_correct [OF inv] split: option.splits)
qed

section \<open>The policy and its refinement\<close>

text \<open>What the blocker promises, per address and without cache or disk.\<close>

datatype blocker_event = Failure string gotime | Success string | Query string gotime | Clean gotime

fun blocker_step :: "'d store_env \<Rightarrow> 'd AuthBlocker \<Rightarrow> blocker_event \<Rightarrow> 'd AuthBlocker" where
  "blocker_step E b (Failure ip now) = RecordFailure E ip now b"
| "blocker_step E b (Success ip) = ResetFailure E ip b"
| "blocker_step E b (Query ip now) = snd (IsBlocked E ip now b)"
| "blocker_step E b (Clean now) = cleanExpired E now b"

fun policy_step ::
  "int \<Rightarrow> duration \<Rightarrow> duration \<Rightarrow> (string \<rightharpoonup> AuthFailureRecord) \<Rightarrow> blocker_event \<Rightarrow>
     (string \<rightharpoonup> AuthFailureRecord)" where
  "policy_step maxF dur ttl m (Failure ip now) = m(ip \<mapsto> record_fail maxF dur now (prior_record (m ip)))"
| "policy_step maxF dur ttl m (Success ip) = m(ip := None)"
| "policy_step maxF dur ttl m (Query ip now) = m"
| "policy_step maxF dur ttl m (Clean now) =
     (\<lambda>ip. case m ip of None \<Rightarrow> None | Some r \<Rightarrow> if record_expired ttl now r then None else Some r)"

fun event_ok :: "duration \<Rightarrow> blocker_event \<Rightarrow> bool" where
  "event_ok dur (Failure ip now) \<longleftrightarrow> valid_ip ip \<and> time_ok now \<and> time_ok (now + dur)"
| "event_ok dur _ \<longleftrightarrow> True"

definition with_params ::
  "'d store_env \<Rightarrow> ('d \<Rightarrow> bool) \<Rightarrow> int \<Rightarrow> duration \<Rightarrow> duration \<Rightarrow> 'd AuthBlocker \<Rightarrow> bool" where
  "with_params E ok maxF dur ttl b \<longleftrightarrow>
     blocker_inv E ok b \<and> ab_maxFailures b = maxF \<and> ab_blockDur b = dur \<and> ab_recordTTL b = ttl"

interpretation blocker: simulation "blocker_step E" "event_ok dur" "with_params E ok maxF dur ttl"
    "blocker_view E" "policy_step maxF dur ttl"
  for E ok maxF dur ttl
proof (unfold_locales, goal_cases)
  case (1 b e)
  then have inv: "blocker_inv E ok b" by (simp add: with_params_def)
  have "blocker_inv E ok (blocker_step E b e) \<and> same_params b (blocker_step E b e)"
    using 1 RecordFailure_correct(1,3) [OF inv] ResetFailure_correct(1,3) [OF inv]
      IsBlocked_correct(2,4) [OF inv] cleanExpired_correct(1,3) [OF inv]
    by (cases e) (simp_all add: with_params_def)
  with 1 show ?case by (simp add: with_params_def same_params_def)
next
  case (2 b e)
  then have inv: "blocker_inv E ok b" by (simp add: with_params_def)
  show ?case
    using 2 RecordFailure_correct(2) [OF inv] ResetFailure_correct(2) [OF inv]
      IsBlocked_correct(3) [OF inv] cleanExpired_correct(2) [OF inv]
    by (cases e) (auto simp: with_params_def fun_eq_iff split: option.splits)
qed

text \<open>One address of the policy, and the events that concern it.\<close>

fun record_step ::
  "int \<Rightarrow> duration \<Rightarrow> duration \<Rightarrow> string \<Rightarrow> AuthFailureRecord option \<Rightarrow> blocker_event \<Rightarrow>
     AuthFailureRecord option" where
  "record_step maxF dur ttl ip r (Failure ip' now) =
     (if ip' = ip then Some (record_fail maxF dur now (prior_record r)) else r)"
| "record_step maxF dur ttl ip r (Success ip') = (if ip' = ip then None else r)"
| "record_step maxF dur ttl ip r (Query ip' now) = r"
| "record_step maxF dur ttl ip r (Clean now) =
     (case r of None \<Rightarrow> None | Some r' \<Rightarrow> if record_expired ttl now r' then None else Some r')"

fun concerns :: "string \<Rightarrow> blocker_event \<Rightarrow> bool" where
  "concerns ip (Failure ip' now) \<longleftrightarrow> ip' = ip"
| "concerns ip (Success ip') \<longleftrightarrow> ip' = ip"
| "concerns ip (Query ip' now) \<longleftrightarrow> False"
| "concerns ip (Clean now) \<longleftrightarrow> True"

lemma policy_pointwise:
  "foldl (policy_step maxF dur ttl) m es ip = foldl (record_step maxF dur ttl ip) (m ip) (filter (concerns ip) es)"
proof (induction es arbitrary: m)
  case (Cons e es)
  show ?case
    by (cases e) (simp_all add: Cons.IH)
qed simp

lemma blocker_run:
  assumes "blocker_inv E ok b" "list_all (event_ok (ab_blockDur b)) es"
  shows "blocker_inv E ok (foldl (blocker_step E) b es)"
    and "ab_maxFailures (foldl (blocker_step E) b es) = ab_maxFailures b"
    and "ab_blockDur (foldl (blocker_step E) b es) = ab_blockDur b"
    and "ab_recordTTL (foldl (blocker_step E) b es) = ab_recordTTL b"
    and "blocker_view E (foldl (blocker_step E) b es) =
      foldl (policy_step (ab_maxFailures b) (ab_blockDur b) (ab_recordTTL b)) (blocker_view E b) es"
proof -
  have p: "with_params E ok (ab_maxFailures b) (ab_blockDur b) (ab_recordTTL b) b"
    using assms(1) by (simp add: with_params_def)
  show "blocker_inv E ok (foldl (blocker_step E) b es)"
    "ab_maxFailures (foldl (blocker_step E) b es) = ab_maxFailures b"
    "ab_blockDur (foldl (blocker_step E) b es) = ab_blockDur b"
    "ab_recordTTL (foldl (blocker_step E) b es) = ab_recordTTL b"
    using blocker.run_inv [OF p assms(2)] by (simp_all add: with_params_def)
  show "blocker_view E (foldl (blocker_step E) b es) =
      foldl (policy_step (ab_maxFailures b) (ab_blockDur b) (ab_recordTTL b)) (blocker_view E b) es"
    by (rule blocker.run_abs [OF p assms(2)])
qed

lemma record_run_failures:
  assumes "0 < maxF" "0 < dur" "int (length ts) \<le> max_int64" "\<And>t. t \<in> set ts \<Longrightarrow> 0 \<le> t"
  shows "foldl (record_step maxF dur ttl ip) None (map (Failure ip) ts) =
    (if ts = [] then None
     else Some \<lparr>FailCount = int (length ts), LastFailAt = last ts,
                BlockedUntil = (if maxF \<le> int (length ts) then last ts + dur else 0)\<rparr>)"
  using assms(3,4)
proof (induction ts rule: rev_induct)
  case (snoc t ts)
  then have "0 \<le> t" "int (length ts) + 1 \<le> max_int64" by simp_all
  with snoc show ?case
    using assms(1,2)
    by (auto simp: record_fail_def Let_def prior_record_def zero_record_def)
qed simp

section \<open>A store in memory\<close>

text \<open>One database and codec that have the documented behaviour: an association list, and records as
  three numbers of 72 bits. It shows that \<open>store_laws\<close> can hold.\<close>

definition bits_of :: "int \<Rightarrow> string" where
  "bits_of i = map (\<lambda>n. if bit (i + 2 ^ 71) n then CHR ''1'' else CHR ''0'') [0..<72]"

definition of_bits :: "string \<Rightarrow> int" where
  "of_bits s = horner_sum of_bool 2 (map (\<lambda>c. c = CHR ''1'') s) - 2 ^ 71"

definition mem_marshal :: "AuthFailureRecord \<Rightarrow> string option" where
  "mem_marshal r = Some (bits_of (FailCount r) @ bits_of (LastFailAt r) @ bits_of (BlockedUntil r))"

definition mem_unmarshal :: "string \<Rightarrow> AuthFailureRecord option" where
  "mem_unmarshal s =
     (if length s \<noteq> 216 then None
      else Some \<lparr>FailCount = of_bits (take 72 s), LastFailAt = of_bits (take 72 (drop 72 s)),
                 BlockedUntil = of_bits (drop 144 s)\<rparr>)"

definition mem_env :: "(string \<times> string) list \<Rightarrow> (string \<times> string) list store_env" where
  "mem_env file =
     \<lparr>bb_open = (\<lambda>_. Some file), bb_close = (\<lambda>d. d), bb_view = (\<lambda>_. True),
      bb_update = (\<lambda>d f. case f d of None \<Rightarrow> (d, False) | Some d' \<Rightarrow> (d', True)),
      bb_bucket = (\<lambda>_ _. True), bb_create = (\<lambda>d _. Some d), bb_get = (\<lambda>d _. map_of d),
      bb_put = (\<lambda>d _ k v. Some ((k, v) # filter (\<lambda>p. fst p \<noteq> k) d)),
      bb_delete = (\<lambda>d _ k. Some (filter (\<lambda>p. fst p \<noteq> k) d)), bb_entries = (\<lambda>d _. d),
      js_marshal = mem_marshal, js_unmarshal = mem_unmarshal\<rparr>"

definition mem_ok :: "(string \<times> string) list \<Rightarrow> bool" where
  "mem_ok d \<longleftrightarrow> distinct (map fst d)"

lemma of_bits_of: "- (2 ^ 71) \<le> i \<Longrightarrow> i < 2 ^ 71 \<Longrightarrow> of_bits (bits_of i) = i"
proof -
  assume i: "- (2 ^ 71) \<le> i" "i < 2 ^ 71"
  have "map (\<lambda>c. c = CHR ''1'') (bits_of i) = map (bit (i + 2 ^ 71)) [0..<72]"
    by (simp add: bits_of_def)
  then have "of_bits (bits_of i) = take_bit 72 (i + 2 ^ 71) - 2 ^ 71"
    unfolding of_bits_def by (simp only: horner_sum_bit_eq_take_bit)
  also have "take_bit 72 (i + 2 ^ 71) = i + 2 ^ 71"
    by (rule take_bit_int_eq_self) (use i in simp_all)
  finally show ?thesis by simp
qed

lemma length_bits_of [simp]: "length (bits_of i) = 72"
  by (simp add: bits_of_def)

lemma mem_codec: "rec_ok r \<Longrightarrow> mem_unmarshal (the (mem_marshal r)) = Some r"
  by (cases r) (simp add: mem_marshal_def mem_unmarshal_def of_bits_of rec_ok_def time_ok_def)

lemma mem_laws: "store_laws (mem_env file) mem_ok"
  unfolding store_laws_def
proof (intro conjI allI impI, goal_cases)
  case (9 r)
  then show ?case
    using mem_codec [of r] by (auto simp: mem_env_def mem_marshal_def bits_of_def)
qed (auto simp: mem_env_def mem_ok_def fun_eq_iff map_of_filter_key distinct_map_filter)

section \<open>Opening\<close>

text \<open>The file bbolt opens holds the database \<open>d\<close>, whose records are well formed.\<close>

definition opens :: "'d store_env \<Rightarrow> ('d \<Rightarrow> bool) \<Rightarrow> string \<Rightarrow> 'd \<Rightarrow> bool" where
  "opens E ok path d \<longleftrightarrow> path \<noteq> '''' \<and> bb_open E path = Some d \<and> ok d \<and> (\<forall>k r. disk E d k = Some r \<longrightarrow> rec_ok r)"

lemma NewAuthBlocker_opens:
  assumes laws: "store_laws E ok" and open_db: "opens E ok (bc_DBPath cfg) d" and dir: "mkdir (bc_DBPath cfg)"
  shows "\<exists>b. NewAuthBlocker E mkdir cfg = Inr b \<and> blocker_inv E ok b \<and> ab_db b = Some d \<and>
    blocker_view E b = disk E d \<and> ab_maxFailures b = bc_MaxFailures (blocker_defaults cfg) \<and>
    ab_blockDur b = bc_BlockDuration (blocker_defaults cfg) \<and>
    ab_recordTTL b = bc_RecordTTL (blocker_defaults cfg) \<and>
    lru_capacity (ab_lru b) = bc_LRUSize (blocker_defaults cfg)"
proof -
  have d: "bb_open E (bc_DBPath cfg) = Some d" "ok d" "\<And>k r. disk E d k = Some r \<Longrightarrow> rec_ok r"
    and path: "bc_DBPath cfg \<noteq> ''''"
    using open_db by (simp_all add: opens_def)
  have "bb_update E d (\<lambda>tx. bb_create E tx bucketName) = (d, True)"
    using store_lawsD(1) [OF laws d(2)] by (intro store_lawsD(2) [OF laws d(2) _ d(2)]) simp
  moreover have "bc_DBPath (blocker_defaults cfg) = bc_DBPath cfg"
    by (simp add: blocker_defaults_def)
  ultimately obtain b where b: "NewAuthBlocker E mkdir cfg = Inr b" "ab_db b = Some d"
      "ab_lru b = newLRUCache (bc_LRUSize (blocker_defaults cfg))"
      "ab_maxFailures b = bc_MaxFailures (blocker_defaults cfg)"
      "ab_blockDur b = bc_BlockDuration (blocker_defaults cfg)"
      "ab_recordTTL b = bc_RecordTTL (blocker_defaults cfg)"
    using path dir d(1) by (simp add: NewAuthBlocker_def Let_def)
  have "lru_content (ab_lru b) = Map.empty"
    by (simp add: b(3) newLRUCache_def lru_content_def lru_list_def)
  then have inv: "blocker_inv E ok b"
    by (intro blocker_invI [where d = d] laws b(2) d(2)) (use d(3) lru_inv_new in \<open>simp_all add: b(3)\<close>)
  moreover have "lru_capacity (ab_lru b) = bc_LRUSize (blocker_defaults cfg)"
    by (simp add: b(3) newLRUCache_def blocker_defaults_def)
  ultimately show ?thesis
    using b blocker_view_disk [OF inv b(2)] by blast
qed

lemma mem_opens: "path \<noteq> '''' \<Longrightarrow> opens (mem_env []) mem_ok path []"
  by (simp add: opens_def mem_env_def mem_ok_def disk_def db_read_def)

text \<open>A blocker on an empty file, for concrete runs.\<close>

definition demo_blocker :: "AuthBlockerConfig \<Rightarrow> (string \<times> string) list AuthBlocker" where
  "demo_blocker cfg = (case NewAuthBlocker (mem_env []) (\<lambda>_. True) (cfg\<lparr>bc_DBPath := ''auth.db''\<rparr>) of
     Inr b \<Rightarrow> b | Inl _ \<Rightarrow> undefined)"

lemma demo_blocker_correct:
  "blocker_inv (mem_env []) mem_ok (demo_blocker cfg) \<and> blocker_view (mem_env []) (demo_blocker cfg) = Map.empty \<and>
   ab_db (demo_blocker cfg) = Some [] \<and>
   ab_maxFailures (demo_blocker cfg) = bc_MaxFailures (blocker_defaults cfg) \<and>
   ab_blockDur (demo_blocker cfg) = bc_BlockDuration (blocker_defaults cfg) \<and>
   ab_recordTTL (demo_blocker cfg) = bc_RecordTTL (blocker_defaults cfg)"
proof -
  have "disk (mem_env []) [] = Map.empty"
    by (simp add: fun_eq_iff disk_def db_read_def mem_env_def)
  moreover have "opens (mem_env []) mem_ok (bc_DBPath (cfg\<lparr>bc_DBPath := ''auth.db''\<rparr>)) []"
    by (rule mem_opens) simp
  ultimately show ?thesis
    using NewAuthBlocker_opens [OF mem_laws, of "[]" "cfg\<lparr>bc_DBPath := ''auth.db''\<rparr>" "[]" "\<lambda>_. True"]
    by (auto simp: demo_blocker_def blocker_defaults_def)
qed

definition demo_config :: AuthBlockerConfig where
  "demo_config = \<lparr>bc_DBPath = '''', bc_MaxFailures = 3, bc_BlockDuration = 600 * second, bc_LRUSize = 2,
     bc_CleanInterval = 60 * second, bc_RecordTTL = 86400 * second\<rparr>"

lemma demo_inv: "blocker_inv (mem_env []) mem_ok (demo_blocker demo_config)"
  and demo_view: "blocker_view (mem_env []) (demo_blocker demo_config) = Map.empty"
  and demo_params:
    "ab_maxFailures (demo_blocker demo_config) = 3" "ab_blockDur (demo_blocker demo_config) = 600 * second"
    "ab_recordTTL (demo_blocker demo_config) = 86400 * second"
  using demo_blocker_correct [of demo_config] by (simp_all add: blocker_defaults_def demo_config_def)

section \<open>The blocker's properties\<close>

text \<open>(C1) The blocker implements its policy: through any sequence of failures, successes, queries and
  cleanings, what it knows of every address (LRU cache over the database, with evictions and
  refills) is what the cacheless policy computes.\<close>

theorem blocker_refines_policy:
  assumes "blocker_inv E ok b" "list_all (event_ok (ab_blockDur b)) es"
  shows "blocker_view E (foldl (blocker_step E) b es) =
    foldl (policy_step (ab_maxFailures b) (ab_blockDur b) (ab_recordTTL b)) (blocker_view E b) es"
  by (rule blocker_run(5) [OF assms])

theorem blocker_refines_policy_witness:
  "let b = demo_blocker demo_config; E = mem_env [];
       es = [Failure ''10.0.0.1'' 5, Failure ''10.0.0.2'' 6, Failure ''10.0.0.3'' 7, Query ''10.0.0.1'' 8, Clean 9]
   in blocker_view E (foldl (blocker_step E) b es) = foldl (policy_step 3 (600 * second) (86400 * second)) Map.empty es"
  using blocker_refines_policy [of "mem_env []" mem_ok "demo_blocker demo_config"
      "[Failure ''10.0.0.1'' 5, Failure ''10.0.0.2'' 6, Failure ''10.0.0.3'' 7, Query ''10.0.0.1'' 8, Clean 9]"]
  by (simp add: demo_inv demo_view demo_params valid_ip_def time_ok_def Let_def del: foldl_Cons)

text \<open>(C19) Addresses are isolated: the record of an address depends only on its own failures and
  successes and on the cleanings, not on what other addresses do.\<close>

theorem blocker_isolates_addresses:
  assumes "blocker_inv E ok b" "list_all (event_ok (ab_blockDur b)) es"
  shows "blocker_view E (foldl (blocker_step E) b es) ip =
    foldl (record_step (ab_maxFailures b) (ab_blockDur b) (ab_recordTTL b) ip)
      (blocker_view E b ip) (filter (concerns ip) es)"
  unfolding blocker_run(5) [OF assms] by (rule policy_pointwise)

theorem blocker_isolates_addresses_witness:
  "let b = demo_blocker demo_config; E = mem_env []
   in blocker_view E (foldl (blocker_step E) b
        [Failure ''10.0.0.1'' 5, Failure ''10.0.0.2'' 6, Success ''10.0.0.3'']) ''10.0.0.2'' =
      Some \<lparr>FailCount = 1, LastFailAt = 6, BlockedUntil = 0\<rparr>"
  using blocker_isolates_addresses [of "mem_env []" mem_ok "demo_blocker demo_config"
      "[Failure ''10.0.0.1'' 5, Failure ''10.0.0.2'' 6, Success ''10.0.0.3'']" "''10.0.0.2''"]
  by (simp add: demo_inv demo_view demo_params valid_ip_def time_ok_def Let_def prior_record_def
      zero_record_def record_fail_def)



text \<open>(C20) Restarting the server does not help an attacker: a blocker opened on the same database, with
  whatever parameters and an empty cache, knows exactly what the old one knew.\<close>

theorem blocker_survives_restart:
  assumes inv: "blocker_inv E ok b" and es: "list_all (event_ok (ab_blockDur b)) es"
    and db: "ab_db (foldl (blocker_step E) b es) = Some d"
    and reopen: "bc_DBPath cfg \<noteq> ''''" "mkdir (bc_DBPath cfg)" "bb_open E (bc_DBPath cfg) = Some d"
  shows "\<exists>b'. NewAuthBlocker E mkdir cfg = Inr b' \<and> blocker_inv E ok b' \<and>
    (\<forall>ip t. fst (IsBlocked E ip t b') = fst (IsBlocked E ip t (foldl (blocker_step E) b es))) \<and>
    blocker_view E b' = foldl (policy_step (ab_maxFailures b) (ab_blockDur b) (ab_recordTTL b)) (blocker_view E b) es"
proof -
  note run = blocker_run [OF inv es]
  obtain d' where c: "coherent E ok (foldl (blocker_step E) b es) d'" using coherent_of_inv [OF run(1)] by blast
  then have d': "d' = d" using coherentD(3) [OF c] db by simp
  have "opens E ok (bc_DBPath cfg) d"
    using reopen coherentD(4,6) [OF c] by (auto simp: opens_def d')
  then obtain b' where b': "NewAuthBlocker E mkdir cfg = Inr b'" "blocker_inv E ok b'" "blocker_view E b' = disk E d"
    using NewAuthBlocker_opens [of E ok cfg d mkdir] coherentD(1) [OF c] reopen(2) by blast
  then show ?thesis
    using blocker_view_disk [OF run(1) db] by (auto simp: IsBlocked_correct(1) [OF run(1)]
        IsBlocked_correct(1) [OF b'(2)] run(5) [symmetric])
qed

theorem blocker_survives_restart_witness:
  "\<exists>d b'. NewAuthBlocker (mem_env d) (\<lambda>_. True) (demo_config\<lparr>bc_DBPath := ''auth.db''\<rparr>) = Inr b' \<and>
     blocker_view (mem_env d) b' ''10.0.0.1'' = Some \<lparr>FailCount = 1, LastFailAt = 5, BlockedUntil = 0\<rparr>"
proof -
  let ?cfg = "demo_config\<lparr>bc_DBPath := ''auth.db''\<rparr>"
  define r where "r = \<lparr>FailCount = 1, LastFailAt = 5, BlockedUntil = 0\<rparr>"
  define d where "d = [(''10.0.0.1'', the (mem_marshal r))]"
  have r: "rec_ok r" by (simp add: r_def rec_ok_def time_ok_def)
  have disk: "disk (mem_env d) d k = (if k = ''10.0.0.1'' then Some r else None)" for k
    using mem_codec [OF r]
    by (auto simp: disk_def db_read_def mem_env_def d_def mem_marshal_def bits_of_def)
  have o: "opens (mem_env d) mem_ok (bc_DBPath ?cfg) d"
    using r by (simp add: opens_def disk) (simp add: mem_env_def mem_ok_def d_def)
  obtain b where b: "blocker_inv (mem_env d) mem_ok b" "ab_db b = Some d" "blocker_view (mem_env d) b = disk (mem_env d) d"
    using NewAuthBlocker_opens [OF mem_laws o, of "\<lambda>_. True"] by blast
  have "bb_open (mem_env d) (bc_DBPath ?cfg) = Some d"
    by (simp add: mem_env_def)
  then obtain b' where "NewAuthBlocker (mem_env d) (\<lambda>_. True) ?cfg = Inr b'" "blocker_view (mem_env d) b' = disk (mem_env d) d"
    using blocker_survives_restart [OF b(1), of "[]" d ?cfg "\<lambda>_. True"] b(2,3) by auto
  then show ?thesis using disk [of "''10.0.0.1''"] unfolding r_def by (intro exI [of _ d] exI [of _ b']) simp
qed

text \<open>(C21) Cleaning is precise and never lifts a block: after \<open>cleanExpired\<close> at \<open>now\<close> an address keeps its
  record unless its last failure is older than the retention time and it is not blocked, and at every
  later time the same addresses are blocked as without cleaning.\<close>

theorem cleanExpired_precise:
  assumes inv: "blocker_inv E ok b" and later: "now \<le> t"
  shows "blocker_view E (cleanExpired E now b) ip =
      (case blocker_view E b ip of
         Some r \<Rightarrow> if \<not> record_IsBlocked r now \<and> (LastFailAt r = 0 \<or> LastFailAt r < now - ab_recordTTL b)
                 then None else Some r
       | None \<Rightarrow> None) \<and>
    fst (IsBlocked E ip t (cleanExpired E now b)) = fst (IsBlocked E ip t b)"
  using later cleanExpired_correct(2) [OF inv, of now ip] IsBlocked_correct(1) [OF inv, of ip t]
    IsBlocked_correct(1) [OF cleanExpired_correct(1) [OF inv], of ip t now]
  by (auto simp: record_expired_def record_IsBlocked_def Let_def split: option.splits)

theorem cleanExpired_precise_witness:
  "blocker_view (mem_env []) (cleanExpired (mem_env []) 7 (demo_blocker demo_config)) ''10.0.0.1'' = None"
  using cleanExpired_precise [OF demo_inv, of 7 8 "''10.0.0.1''"] by (simp add: demo_view)

text \<open>\<open>BlockedCount\<close> is exact: the number of addresses whose record, cached or on disk, is inside
  its block window.\<close>

theorem BlockedCount_correct:
  assumes "blocker_inv E ok b"
  shows "BlockedCount E now b =
    int (card {ip. \<exists>r. blocker_view E b ip = Some r \<and> record_IsBlocked r now})"
proof -
  obtain d where c: "coherent E ok b d" using coherent_of_inv [OF assms] by blast
  let ?xs = "decode_entries E (bb_entries E d bucketName)"
  let ?ks = "map fst (filter (\<lambda>(k, r). record_IsBlocked r now) ?xs)"
  note xs = decode_entries_disk [OF c]
  have "BlockedCount E now b =
      foldl (\<lambda>count (ip, r). if record_IsBlocked r now then count + 1 else count) 0 ?xs"
    unfolding BlockedCount_def by (rule iterateAll_disk [OF c]) (rule refl)
  also have "\<dots> = int (length ?ks)" by (simp add: foldl_count)
  also have "length ?ks = card (set ?ks)"
    using xs(2) by (intro distinct_card [symmetric]) (simp add: distinct_map_filter)
  also have "set ?ks = {ip. \<exists>r. blocker_view E b ip = Some r \<and> record_IsBlocked r now}"
    unfolding keys_filter_map_of [OF xs(2)] xs(1) blocker_view_disk [OF assms coherentD(3) [OF c]] ..
  finally show ?thesis .
qed

theorem BlockedCount_correct_witness:
  "BlockedCount (mem_env []) 9 (RecordFailure (mem_env []) ''10.0.0.1'' 8
     (demo_blocker (demo_config\<lparr>bc_MaxFailures := 1\<rparr>))) = 1"
proof -
  let ?b = "demo_blocker (demo_config\<lparr>bc_MaxFailures := 1\<rparr>)"
  have b: "blocker_inv (mem_env []) mem_ok ?b" "blocker_view (mem_env []) ?b = Map.empty"
    "ab_maxFailures ?b = 1" "ab_blockDur ?b = 600 * second"
    using demo_blocker_correct [of "demo_config\<lparr>bc_MaxFailures := 1\<rparr>"]
    by (simp_all add: blocker_defaults_def demo_config_def)
  have "valid_ip ''10.0.0.1''" "time_ok 8" "time_ok (8 + ab_blockDur ?b)"
    by (simp_all add: valid_ip_def time_ok_def b)
  note fail = RecordFailure_correct [OF b(1) this]
  have "{ip. \<exists>r. blocker_view (mem_env []) (RecordFailure (mem_env []) ''10.0.0.1'' 8 ?b) ip = Some r \<and>
      record_IsBlocked r 9} = {''10.0.0.1''}"
    unfolding fail(2) b(2)
    by (auto simp: prior_record_def zero_record_def record_fail_def Let_def b record_IsBlocked_def)
  then show ?thesis using BlockedCount_correct [OF fail(1), of 9] by simp
qed

text \<open>Memory mode: without a database the cache alone knows an address.\<close>

lemma memory_RecordFailure:
  assumes "ab_db b = None" "lru_inv (ab_lru b)"
  shows "ab_db (RecordFailure E ip now b) = None" "lru_inv (ab_lru (RecordFailure E ip now b))"
    and "same_params b (RecordFailure E ip now b)"
    and "cached (RecordFailure E ip now b) ip =
      Some (record_fail (ab_maxFailures b) (ab_blockDur b) now (prior_record (cached b ip)))"
proof -
  obtain v l where vl: "lru_get (ab_lru b) ip = (v, l)" by fastforce
  have v: "v = lru_content (ab_lru b) ip" and l: "lru_inv l" "lru_capacity l = lru_capacity (ab_lru b)"
    using lru.get_value [OF assms(2), of ip] lru.get_cinv [OF assms(2), of ip]
      lru_capacity_kept(1) [of "ab_lru b" ip] by (simp_all add: vl)
  obtain a b1 where load: "rf_load E ip b = (a, b1)" by fastforce
  have b1: "ab_db b1 = None \<and> lru_inv (ab_lru b1) \<and> same_params b b1 \<and> ab_recs b1 a = prior_record (cached b ip)"
    using load assms(1) l
    by (cases "lru_content (ab_lru b) ip")
       (auto simp: rf_load_def getRecord_def vl v alloc_record_def same_params_def cached_def prior_record_def)
  let ?r = "record_fail (ab_maxFailures b1) (ab_blockDur b1) now (ab_recs b1 a)"
  have res: "RecordFailure E ip now b = b1\<lparr>ab_recs := (ab_recs b1)(a := ?r), ab_lru := lru_put (ab_lru b1) ip a\<rparr>"
    using b1 by (simp add: RecordFailure_def load rf_bump_def rf_store_def putRecord_def rf_cache_def)
  have "ab_db (RecordFailure E ip now b) = None \<and> lru_inv (ab_lru (RecordFailure E ip now b)) \<and>
    same_params b (RecordFailure E ip now b) \<and>
    cached (RecordFailure E ip now b) ip =
      Some (record_fail (ab_maxFailures b) (ab_blockDur b) now (prior_record (cached b ip)))"
    using b1 lru.put_cinv [of "ab_lru b1"] lru.put_self [of "ab_lru b1"]
    by (simp add: res same_params_def cached_def)
  then show "ab_db (RecordFailure E ip now b) = None" "lru_inv (ab_lru (RecordFailure E ip now b))"
    "same_params b (RecordFailure E ip now b)"
    "cached (RecordFailure E ip now b) ip =
      Some (record_fail (ab_maxFailures b) (ab_blockDur b) now (prior_record (cached b ip)))"
    by blast+
qed

lemma memory_IsBlocked:
  assumes "ab_db b = None" "lru_inv (ab_lru b)"
  shows "fst (IsBlocked E ip now b) = (case cached b ip of None \<Rightarrow> False | Some r \<Rightarrow> record_IsBlocked r now)"
  using assms lru.get_value [OF assms(2), of ip]
  by (auto simp: IsBlocked_def getRecord_def cached_def split: option.splits prod.splits)

text \<open>Without a database the count is wrong: in memory mode (no path configured) an address that
  reached the threshold is blocked, but \<open>BlockedCount\<close>, documented as the number of blocked
  addresses, is 0, and cleaning never removes anything.\<close>

theorem memory_mode_counts_nothing:
  "\<exists>b. NewAuthBlocker E mkdir demo_config = Inr b \<and>
     (let b3 = RecordFailure E ''10.0.0.1'' 7 (RecordFailure E ''10.0.0.1'' 6 (RecordFailure E ''10.0.0.1'' 5 b))
      in fst (IsBlocked E ''10.0.0.1'' 8 b3) \<and> BlockedCount E 8 b3 = 0 \<and> (\<forall>t. cleanExpired E t b3 = b3))"
proof -
  obtain b where b: "NewAuthBlocker E mkdir demo_config = Inr b" "ab_db b = None"
      "ab_lru b = newLRUCache 2" "ab_maxFailures b = 3" "ab_blockDur b = 600 * second"
    by (simp add: NewAuthBlocker_def demo_config_def blocker_defaults_def Let_def)
  then have lru: "lru_inv (ab_lru b)" "cached b ''10.0.0.1'' = None"
    using lru_inv_new [of 2] by (simp_all add: cached_def newLRUCache_def lru_content_def lru_list_def)
  note 1 = memory_RecordFailure [OF b(2) lru(1), of E "''10.0.0.1''" 5]
  note 2 = memory_RecordFailure [OF 1(1,2), of E "''10.0.0.1''" 6]
  note 3 = memory_RecordFailure [OF 2(1,2), of E "''10.0.0.1''" 7]
  let ?b3 = "RecordFailure E ''10.0.0.1'' 7 (RecordFailure E ''10.0.0.1'' 6 (RecordFailure E ''10.0.0.1'' 5 b))"
  have "fst (IsBlocked E ''10.0.0.1'' 8 ?b3)"
    using 1(3) 2(3) b(4,5)
    by (simp add: memory_IsBlocked [OF 3(1,2)] 3(4) 2(4) 1(4) lru(2) same_params_def
        prior_record_def zero_record_def record_fail_def record_IsBlocked_def Let_def)
  then show ?thesis
    using 3(1) b(1) by (simp add: BlockedCount_def iterateAll_def cleanExpired_def)
qed

end
