(* ===== verification/Blocker_Race.thy ===== *)
theory Blocker_Race
  imports Auth_Blocker
begin

text \<open>
  \<open>RecordFailure\<close> (\<open>src/pkg/auth/blocker.go\<close>) called by several goroutines at once, as the password
  callbacks of several connections do. The cache and the database each have a lock, but no lock spans
  the call: between fetching the record, changing it, storing it and caching it other goroutines run.
  A state is the shared blocker and what each goroutine has done; \<open>race_step\<close> is one step of one.
\<close>

datatype rf_phase = RfStart | RfLoaded nat | RfBumped nat | RfStored nat | RfDone

record 'd race =
  rc_blocker :: "'d AuthBlocker"
  rc_phase :: "nat \<Rightarrow> rf_phase"

definition race_start :: "'d AuthBlocker \<Rightarrow> 'd race" where
  "race_start b = \<lparr>rc_blocker = b, rc_phase = (\<lambda>_. RfStart)\<rparr>"

text \<open>Goroutine \<open>i\<close> records a failure of \<open>ip i\<close> at the time \<open>now i\<close> it read.\<close>

inductive race_step ::
  "'d store_env \<Rightarrow> (nat \<Rightarrow> string) \<Rightarrow> (nat \<Rightarrow> gotime) \<Rightarrow> nat \<Rightarrow> 'd race \<Rightarrow> 'd race \<Rightarrow> bool" for E ip now i where
  Load: "rc_phase s i = RfStart \<Longrightarrow> rf_load E (ip i) (rc_blocker s) = (a, b) \<Longrightarrow>
    race_step E ip now i s (s\<lparr>rc_blocker := b, rc_phase := (rc_phase s)(i := RfLoaded a)\<rparr>)"
| Bump: "rc_phase s i = RfLoaded a \<Longrightarrow>
    race_step E ip now i s
      (s\<lparr>rc_blocker := rf_bump (now i) a (rc_blocker s), rc_phase := (rc_phase s)(i := RfBumped a)\<rparr>)"
| Store: "rc_phase s i = RfBumped a \<Longrightarrow>
    race_step E ip now i s
      (s\<lparr>rc_blocker := rf_store E (ip i) a (rc_blocker s), rc_phase := (rc_phase s)(i := RfStored a)\<rparr>)"
| Cache: "rc_phase s i = RfStored a \<Longrightarrow>
    race_step E ip now i s
      (s\<lparr>rc_blocker := rf_cache (ip i) a (rc_blocker s), rc_phase := (rc_phase s)(i := RfDone)\<rparr>)"

inductive_cases race_stepE: "race_step E ip now i s t"

definition race :: "'d store_env \<Rightarrow> (nat \<Rightarrow> string) \<Rightarrow> (nat \<Rightarrow> gotime) \<Rightarrow> 'd race \<Rightarrow> 'd race \<Rightarrow> bool" where
  "race E ip now s t \<longleftrightarrow> (\<exists>i. race_step E ip now i s t)"

lemma race_trans: "race_step E ip now i s t \<Longrightarrow> (race E ip now)\<^sup>*\<^sup>* t u \<Longrightarrow> (race E ip now)\<^sup>*\<^sup>* s u"
  by (rule converse_rtranclp_into_rtranclp) (auto simp: race_def)

text \<open>The last three steps of a goroutine, without interruption.\<close>

lemma race_finish:
  assumes "rc_phase s i = RfLoaded a"
  shows "(race E ip now)\<^sup>*\<^sup>* s
    (s\<lparr>rc_blocker := rf_cache (ip i) a (rf_store E (ip i) a (rf_bump (now i) a (rc_blocker s))),
       rc_phase := (rc_phase s)(i := RfDone)\<rparr>)"
  by (rule race_trans [OF race_step.Bump [OF assms]], rule race_trans [OF race_step.Store [of _ i a]], simp,
      rule race_trans [OF race_step.Cache [of _ i a]]) simp_all

text \<open>A goroutine that is not interrupted does what \<open>RecordFailure\<close> does: the steps are a faithful
  refinement of the call, and while a goroutine has not started every schedule can run it whole.\<close>

theorem uninterrupted_is_RecordFailure:
  assumes "rc_phase s i = RfStart"
  shows "(race E ip now)\<^sup>*\<^sup>* s
    (s\<lparr>rc_blocker := RecordFailure E (ip i) (now i) (rc_blocker s), rc_phase := (rc_phase s)(i := RfDone)\<rparr>)"
proof -
  obtain a b where load: "rf_load E (ip i) (rc_blocker s) = (a, b)" by fastforce
  from race_finish [of "s\<lparr>rc_blocker := b, rc_phase := (rc_phase s)(i := RfLoaded a)\<rparr>" i a E ip now]
  show ?thesis
    using race_trans [OF race_step.Load [where s = s and i = i and ip = ip and now = now, OF assms load]] by (simp add: RecordFailure_def load)
qed

section \<open>Goroutines that all load first\<close>

lemma rf_load_fresh:
  assumes "lru_inv (ab_lru b)" "blocker_view E b ip = None" "rf_load E ip b = (a, b1)"
  shows "a = ab_nextRec b" "ab_nextRec b1 = Suc a" "ab_recs b1 = (ab_recs b)(a := zero_record)"
proof -
  obtain v l where vl: "lru_get (ab_lru b) ip = (v, l)" by fastforce
  have v: "v = None"
    using lru.get_value [OF assms(1), of ip] assms(2)
    by (auto simp: vl blocker_view_def cached_def split: option.splits)
  have "getRecord E b ip = (None, b\<lparr>ab_lru := l\<rparr>)"
    using assms(2) v
    by (auto simp: getRecord_def vl blocker_view_def cached_def disk_def Let_def split: option.splits if_splits)
  then have "a = ab_nextRec b" "b1 = b\<lparr>ab_lru := l, ab_recs := (ab_recs b)(a := zero_record), ab_nextRec := Suc a\<rparr>"
    using assms(3) by (auto simp: rf_load_def alloc_record_def)
  then show "a = ab_nextRec b" "ab_nextRec b1 = Suc a" "ab_recs b1 = (ab_recs b)(a := zero_record)"
    by simp_all
qed

text \<open>After \<open>k\<close> goroutines have loaded: each has a record of its own, all of them new.\<close>

definition all_loaded :: "'d store_env \<Rightarrow> ('d \<Rightarrow> bool) \<Rightarrow> string \<Rightarrow> 'd AuthBlocker \<Rightarrow> nat \<Rightarrow> 'd race \<Rightarrow> bool" where
  "all_loaded E ok ip b k s \<longleftrightarrow>
     blocker_inv E ok (rc_blocker s) \<and> blocker_view E (rc_blocker s) ip = None \<and> same_params b (rc_blocker s) \<and>
     ab_nextRec (rc_blocker s) = ab_nextRec b + k \<and>
     rc_phase s = (\<lambda>i. if i < k then RfLoaded (ab_nextRec b + i) else RfStart) \<and>
     (\<forall>i < k. ab_recs (rc_blocker s) (ab_nextRec b + i) = zero_record)"

lemma load_all:
  assumes "blocker_inv E ok b" "blocker_view E b ip = None"
  shows "\<exists>s. (race E (\<lambda>_. ip) now)\<^sup>*\<^sup>* (race_start b) s \<and> all_loaded E ok ip b k s"
proof (induction k)
  case 0
  then show ?case
    using assms by (intro exI [of _ "race_start b"]) (simp add: all_loaded_def race_start_def)
next
  case (Suc k)
  then obtain s where s: "(race E (\<lambda>_. ip) now)\<^sup>*\<^sup>* (race_start b) s" "all_loaded E ok ip b k s" by blast
  let ?b = "rc_blocker s"
  have inv: "blocker_inv E ok ?b" "blocker_view E ?b ip = None" using s(2) by (simp_all add: all_loaded_def)
  obtain a b1 where load: "rf_load E ip ?b = (a, b1)" by fastforce
  obtain d where c: "coherent E ok ?b d" using coherent_of_inv [OF inv(1)] by blast
  note l = rf_load_correct [OF inv(1) load] and f = rf_load_fresh [OF coherentD(2) [OF c] inv(2) load]
  have "blocker_view E b1 = blocker_view E ?b"
    using blocker_view_disk [OF inv(1)] blocker_view_disk [OF l(1)] l(2) coherentD(3) [OF c] by simp
  then have "all_loaded E ok ip b (Suc k)
      (s\<lparr>rc_blocker := b1, rc_phase := (rc_phase s)(k := RfLoaded a)\<rparr>)"
    using s(2) inv l(1,3) f by (auto simp: all_loaded_def less_Suc_eq intro: same_params_trans)
  moreover have "race_step E (\<lambda>_. ip) now k s (s\<lparr>rc_blocker := b1, rc_phase := (rc_phase s)(k := RfLoaded a)\<rparr>)"
    by (rule race_step.Load) (use s(2) load in \<open>simp_all add: all_loaded_def\<close>)
  ultimately show ?case
    using rtranclp.rtrancl_into_rtrancl [OF s(1)] unfolding race_def by blast
qed

text \<open>Then they finish one after the other, each overwriting what the one before it stored.\<close>

definition finished :: "'d store_env \<Rightarrow> ('d \<Rightarrow> bool) \<Rightarrow> string \<Rightarrow> (nat \<Rightarrow> gotime) \<Rightarrow> 'd AuthBlocker \<Rightarrow> nat \<Rightarrow> nat \<Rightarrow>
    'd race \<Rightarrow> bool" where
  "finished E ok ip now b n j s \<longleftrightarrow>
     same_params b (rc_blocker s) \<and> lru_inv (ab_lru (rc_blocker s)) \<and>
     (\<exists>d. ab_db (rc_blocker s) = Some d \<and> ok d) \<and>
     (\<forall>i. rc_phase s i = (if i < j then RfDone else if i < n then RfLoaded (ab_nextRec b + i) else RfStart)) \<and>
     (\<forall>i. j \<le> i \<and> i < n \<longrightarrow> ab_recs (rc_blocker s) (ab_nextRec b + i) = zero_record) \<and>
     (0 < j \<longrightarrow> cached (rc_blocker s) ip =
        Some (record_fail (ab_maxFailures b) (ab_blockDur b) (now (j - 1)) zero_record))"

lemma finish_all:
  assumes laws: "store_laws E ok" and ip: "valid_ip ip"
    and now: "\<And>i. i < n \<Longrightarrow> time_ok (now i) \<and> time_ok (now i + ab_blockDur b)"
    and start: "finished E ok ip now b n 0 s" and "j \<le> n"
  shows "\<exists>t. (race E (\<lambda>_. ip) now)\<^sup>*\<^sup>* s t \<and> finished E ok ip now b n j t"
  using \<open>j \<le> n\<close>
proof (induction j)
  case 0
  then show ?case using start by blast
next
  case (Suc j)
  then obtain t where t: "(race E (\<lambda>_. ip) now)\<^sup>*\<^sup>* s t" "finished E ok ip now b n j t" by auto
  let ?b = "rc_blocker t" and ?a = "ab_nextRec b + j"
  let ?r = "record_fail (ab_maxFailures b) (ab_blockDur b) (now j) zero_record"
  obtain d where d: "ab_db ?b = Some d" "ok d" and lru: "lru_inv (ab_lru ?b)" and p: "same_params b ?b"
    and ph: "rc_phase t j = RfLoaded ?a" and rec: "ab_recs ?b ?a = zero_record"
    using t(2) Suc.prems by (auto simp: finished_def)
  have r: "rec_ok ?r" using now [of j] Suc.prems by (intro rec_ok_fail rec_ok_zero) auto
  have bump: "rf_bump (now j) ?a ?b = ?b\<lparr>ab_recs := (ab_recs ?b)(?a := ?r)\<rparr>"
    using p rec by (simp add: rf_bump_def same_params_def)
  obtain d' where d': "putRecord E (?b\<lparr>ab_recs := (ab_recs ?b)(?a := ?r)\<rparr>) ip ?r =
      ?b\<lparr>ab_recs := (ab_recs ?b)(?a := ?r), ab_db := Some d'\<rparr>" "ok d'"
    using disk_put [OF laws d(2) ip r, of "?b\<lparr>ab_recs := (ab_recs ?b)(?a := ?r)\<rparr>"] d(1) by auto
  let ?b' = "?b\<lparr>ab_recs := (ab_recs ?b)(?a := ?r), ab_db := Some d', ab_lru := lru_put (ab_lru ?b) ip ?a\<rparr>"
  have b': "rf_cache ip ?a (rf_store E ip ?a (rf_bump (now j) ?a ?b)) = ?b'"
    by (simp add: bump rf_store_def d'(1) rf_cache_def)
  have "finished E ok ip now b n (Suc j) (t\<lparr>rc_blocker := ?b', rc_phase := (rc_phase t)(j := RfDone)\<rparr>)"
    using t(2) d'(2) lru.put_cinv [OF lru] lru.put_self [OF lru] lru_capacity_kept
    by (auto simp: finished_def same_params_def cached_def less_Suc_eq)
  then show ?case
    using rtranclp_trans [OF t(1) race_finish [OF ph, of E "\<lambda>_. ip" now]] unfolding b' by blast
qed

text \<open>(C11) Concurrent wrong passwords are under-counted: however many goroutines record a failure of an
  address without a record at the same time, there is a schedule after which all of them are done
  and the record says one failure. One after the other they would have been counted in full.\<close>

theorem concurrent_failures_lost:
  assumes inv: "blocker_inv E ok b" and ip: "valid_ip ip" "blocker_view E b ip = None" and n: "0 < n"
    and now: "\<And>i. i < n \<Longrightarrow> time_ok (now i) \<and> time_ok (now i + ab_blockDur b)"
  shows "\<exists>s. (race E (\<lambda>_. ip) now)\<^sup>*\<^sup>* (race_start b) s \<and> (\<forall>i < n. rc_phase s i = RfDone) \<and>
    map_option FailCount (blocker_view E (rc_blocker s) ip) = Some 1"
proof -
  obtain s where s: "(race E (\<lambda>_. ip) now)\<^sup>*\<^sup>* (race_start b) s" "all_loaded E ok ip b n s"
    using load_all [OF inv ip(2)] by blast
  obtain d where c: "coherent E ok (rc_blocker s) d"
    using s(2) coherent_of_inv [of E ok "rc_blocker s"] by (auto simp: all_loaded_def)
  have "finished E ok ip now b n 0 s"
    using s(2) coherentD(2,3,4) [OF c] by (auto simp: all_loaded_def finished_def)
  from finish_all [OF coherentD(1) [OF c] ip(1) now this, of n]
  obtain t where t: "(race E (\<lambda>_. ip) now)\<^sup>*\<^sup>* s t" "finished E ok ip now b n n t" by auto
  have "map_option FailCount (blocker_view E (rc_blocker t) ip) = Some 1"
    using t(2) n by (simp add: finished_def blocker_view_def record_fail_def Let_def zero_record_def)
  then show ?thesis
    using rtranclp_trans [OF s(1) t(1)] t(2) by (auto simp: finished_def)
qed

theorem uninterrupted_is_RecordFailure_witness:
  "(race (mem_env []) (\<lambda>_. ''10.0.0.1'') (\<lambda>_. 5))\<^sup>*\<^sup>* (race_start (demo_blocker demo_config))
     \<lparr>rc_blocker = RecordFailure (mem_env []) ''10.0.0.1'' 5 (demo_blocker demo_config),
      rc_phase = (\<lambda>_. RfStart)(0 := RfDone)\<rparr>"
  using uninterrupted_is_RecordFailure [of "race_start (demo_blocker demo_config)" 0 "mem_env []" "\<lambda>_. ''10.0.0.1''" "\<lambda>_. 5"]
  by (simp add: race_start_def)

theorem concurrent_failures_lost_witness:
  "\<exists>s. (race (mem_env []) (\<lambda>_. ''10.0.0.1'') int)\<^sup>*\<^sup>* (race_start (demo_blocker demo_config)) s \<and>
     rc_phase s 0 = RfDone \<and> rc_phase s 1 = RfDone \<and> rc_phase s 2 = RfDone \<and>
     map_option FailCount (blocker_view (mem_env []) (rc_blocker s) ''10.0.0.1'') = Some 1"
  using concurrent_failures_lost [OF demo_inv, of "''10.0.0.1''" 3 int]
  by (auto simp: demo_view demo_params valid_ip_def time_ok_def)

end
