(* ===== verification/Host_Key.thy ===== *)
theory Host_Key
  imports Config
begin

text \<open>
  The server's host key, \<open>src/pkg/auth/keys.go\<close>. A file system is a map from paths to contents with
  the calls' permissions. The key \<open>rsa.GenerateKey\<close> delivers is the argument \<open>gen\<close> (\<open>None\<close> for its
  error); \<open>x509.MarshalPKCS1PrivateKey\<close> and \<open>pem.EncodeToMemory\<close> are \<open>ke_pkcs1\<close> and \<open>ke_pem\<close>, and
  \<open>golang.org/x/crypto/ssh\<close>, third-party code, is \<open>ke_parse\<close>, \<open>ke_public\<close> and \<open>ke_fingerprint\<close>.
\<close>

record file_system =
  fs_data :: "string \<rightharpoonup> string"
  fs_stat_ok :: "string \<Rightarrow> bool"     \<comment> \<open>\<open>os.Stat\<close> of an existing path succeeds\<close>
  fs_read_ok :: "string \<Rightarrow> bool"
  fs_write_ok :: "string \<Rightarrow> bool"

definition os_Stat :: "file_system \<Rightarrow> string \<Rightarrow> bool" where
  "os_Stat fs path \<longleftrightarrow> fs_data fs path \<noteq> None \<and> fs_stat_ok fs path"

definition os_ReadFile :: "file_system \<Rightarrow> string \<Rightarrow> string option" where
  "os_ReadFile fs path = (if fs_read_ok fs path then fs_data fs path else None)"

definition os_WriteFile :: "file_system \<Rightarrow> string \<Rightarrow> string \<Rightarrow> file_system option" where
  "os_WriteFile fs path data =
     (if fs_write_ok fs path then Some (fs\<lparr>fs_data := (fs_data fs)(path \<mapsto> data)\<rparr>) else None)"

record ('k, 'g, 'p) key_env =
  ke_pkcs1 :: "'k \<Rightarrow> string"
  ke_pem :: "string \<times> string \<Rightarrow> string"   \<comment> \<open>block type and bytes\<close>
  ke_parse :: "string \<Rightarrow> 'g option"
  ke_public :: "'g \<Rightarrow> 'p"
  ke_fingerprint :: "'p \<Rightarrow> string"

datatype key_error = GenerateKeyError | ReadKeyError | WriteKeyError | ParseKeyError

definition ParsePrivateKey :: "('k, 'g, 'p) key_env \<Rightarrow> string \<Rightarrow> key_error + 'g" where
  "ParsePrivateKey K data = (case ke_parse K data of None \<Rightarrow> Inl ParseKeyError | Some g \<Rightarrow> Inr g)"

definition GenerateSigner :: "('k, 'g, 'p) key_env \<Rightarrow> 'k option \<Rightarrow> key_error + 'g" where
  "GenerateSigner K gen =
     (case gen of
        None \<Rightarrow> Inl GenerateKeyError
      | Some key \<Rightarrow> ParsePrivateKey K (ke_pem K (''RSA PRIVATE KEY'', ke_pkcs1 K key)))"

definition LoadOrGenerateSigner ::
  "('k, 'g, 'p) key_env \<Rightarrow> 'k option \<Rightarrow> string \<Rightarrow> file_system \<Rightarrow> (key_error + 'g) \<times> file_system" where
  "LoadOrGenerateSigner K gen path fs =
     (if path = '''' then (GenerateSigner K gen, fs)
      else if os_Stat fs path then
        (case os_ReadFile fs path of
           None \<Rightarrow> (Inl ReadKeyError, fs)
         | Some data \<Rightarrow> (ParsePrivateKey K data, fs))
      else
        (case gen of
           None \<Rightarrow> (Inl GenerateKeyError, fs)
         | Some key \<Rightarrow>
             (let pemBytes = ke_pem K (''RSA PRIVATE KEY'', ke_pkcs1 K key)
              in case os_WriteFile fs path pemBytes of
                   None \<Rightarrow> (Inl WriteKeyError, fs)
                 | Some fs' \<Rightarrow> (ParsePrivateKey K pemBytes, fs'))))"

definition GetHostKeyFingerprint :: "('k, 'g, 'p) key_env \<Rightarrow> 'g \<Rightarrow> string" where
  "GetHostKeyFingerprint K signer = (let pubKey = ke_public K signer in ke_fingerprint K pubKey)"

text \<open>The client's check (client.go): without a configured fingerprint any key is accepted.\<close>

definition HostKeyCallback :: "('k, 'g, 'p) key_env \<Rightarrow> string \<Rightarrow> 'p \<Rightarrow> bool" where
  "HostKeyCallback K hostKey key \<longleftrightarrow>
     (if hostKey \<noteq> '''' then (let fingerprint = ke_fingerprint K key in \<not> fingerprint \<noteq> hostKey) else True)"

section \<open>Persistence\<close>

lemma LoadOrGenerate_existing:
  "path \<noteq> '''' \<Longrightarrow> fs_data fs path = Some data \<Longrightarrow> fs_stat_ok fs path \<Longrightarrow> fs_read_ok fs path \<Longrightarrow>
     LoadOrGenerateSigner K gen path fs = (ParsePrivateKey K data, fs)"
  by (simp add: LoadOrGenerateSigner_def os_Stat_def os_ReadFile_def)

lemma LoadOrGenerate_success:
  assumes "LoadOrGenerateSigner K gen path fs = (Inr g, fs')" "path \<noteq> ''''"
  shows "\<exists>data. fs_data fs' path = Some data \<and> ParsePrivateKey K data = Inr g"
    and "fs_stat_ok fs' = fs_stat_ok fs" "fs_read_ok fs' = fs_read_ok fs"
    and "p \<noteq> path \<Longrightarrow> fs_data fs' p = fs_data fs p"
  using assms
  by (auto simp: LoadOrGenerateSigner_def os_Stat_def os_ReadFile_def os_WriteFile_def Let_def
      split: if_splits option.splits)

text \<open>(C36) The host key is stable: once a start with a key path succeeded (loading the key or generating
  and storing one), every later start from the resulting file system returns the same signer, so the
  fingerprint clients pinned stays valid, whatever key a new generation would have given, and the
  file system is left as it is.\<close>

theorem host_key_stable:
  assumes "LoadOrGenerateSigner K gen path fs = (Inr g, fs')" "path \<noteq> ''''"
    and "fs_stat_ok fs path" "fs_read_ok fs path"
  shows "LoadOrGenerateSigner K gen' path fs' = (Inr g, fs') \<and>
    HostKeyCallback K (GetHostKeyFingerprint K g) (ke_public K g)"
proof -
  obtain data where data: "fs_data fs' path = Some data" "ParsePrivateKey K data = Inr g"
    using LoadOrGenerate_success(1) [OF assms(1,2)] by blast
  have "LoadOrGenerateSigner K gen' path fs' = (ParsePrivateKey K data, fs')"
    by (rule LoadOrGenerate_existing [OF assms(2) data(1)])
       (simp_all add: LoadOrGenerate_success(2,3) [OF assms(1,2)] assms(3,4))
  then show ?thesis
    by (simp add: data(2) HostKeyCallback_def GetHostKeyFingerprint_def)
qed

definition demo_keys :: "(string, string, string) key_env" where
  "demo_keys = \<lparr>ke_pkcs1 = (\<lambda>k. k), ke_pem = (\<lambda>(ty, bs). ty @ '':'' @ bs),
     ke_parse = (\<lambda>s. Some (drop 16 s)), ke_public = (\<lambda>k. k), ke_fingerprint = (\<lambda>p. ''SHA256:'' @ p)\<rparr>"

definition demo_fs :: file_system where
  "demo_fs = \<lparr>fs_data = Map.empty, fs_stat_ok = (\<lambda>_. True), fs_read_ok = (\<lambda>_. True), fs_write_ok = (\<lambda>_. True)\<rparr>"

lemma demo_generate:
  "LoadOrGenerateSigner demo_keys (Some ''k1'') ''host_key'' demo_fs =
     (Inr ''k1'', demo_fs\<lparr>fs_data := [''host_key'' \<mapsto> ''RSA PRIVATE KEY:k1'']\<rparr>)"
  by (simp add: LoadOrGenerateSigner_def os_Stat_def demo_fs_def os_WriteFile_def ParsePrivateKey_def
      demo_keys_def)

theorem host_key_stable_witness:
  "fst (LoadOrGenerateSigner demo_keys (Some ''k2'') ''host_key''
     (snd (LoadOrGenerateSigner demo_keys (Some ''k1'') ''host_key'' demo_fs))) = Inr ''k1''"
  using host_key_stable [OF demo_generate, of "Some ''k2''"] by (simp add: demo_generate) (simp add: demo_fs_def)

text \<open>With the default configuration the host key is not persisted: the defaults leave the key path
  empty, no file is written, and every start returns whatever key was just generated, so a pinned
  fingerprint is refused after a restart (unless the two keys have the same one).\<close>

theorem default_host_key_not_persisted:
  "LoadOrGenerateSigner K gen (sc_HostKeyPath (server_setDefaults (cfg\<lparr>sc_HostKeyPath := ''''\<rparr>))) fs =
     (GenerateSigner K gen, fs) \<and>
   HostKeyCallback K (GetHostKeyFingerprint K g1) (ke_public K g2) =
     (GetHostKeyFingerprint K g1 \<in> {'''', GetHostKeyFingerprint K g2})"
  by (auto simp: LoadOrGenerateSigner_def server_setDefaults_fields HostKeyCallback_def
      GetHostKeyFingerprint_def)

end
