(* ===== verification/Semaphore.thy ===== *)
theory Semaphore
  imports Tbore_Base
begin

text \<open>
  The weighted semaphore of \<open>golang.org/x/sync/semaphore\<close> is third-party code and a parameter \<open>S\<close> of
  the definitions that use it, always with weight 1. \<open>sem_laws\<close> states what is documented of it: the
  number held starts at 0, \<open>TryAcquire(1)\<close> succeeds exactly while less than the size is held,
  \<open>Release(1)\<close> gives one back, and panics (\<open>None\<close>) when none is held.
\<close>

record 's semaphore =
  sem_NewWeighted :: "int \<Rightarrow> 's"
  sem_TryAcquire :: "'s \<Rightarrow> 's option"
  sem_Release :: "'s \<Rightarrow> 's option"

definition sem_laws :: "'s semaphore \<Rightarrow> ('s \<Rightarrow> int) \<Rightarrow> ('s \<Rightarrow> int) \<Rightarrow> bool" where
  "sem_laws S held cap \<longleftrightarrow>
     (\<forall>n. held (sem_NewWeighted S n) = 0 \<and> cap (sem_NewWeighted S n) = n) \<and>
     (\<forall>s. held s < cap s \<longrightarrow>
        (\<exists>s'. sem_TryAcquire S s = Some s' \<and> held s' = held s + 1 \<and> cap s' = cap s)) \<and>
     (\<forall>s. cap s \<le> held s \<longrightarrow> sem_TryAcquire S s = None) \<and>
     (\<forall>s. 0 < held s \<longrightarrow>
        (\<exists>s'. sem_Release S s = Some s' \<and> held s' = held s - 1 \<and> cap s' = cap s)) \<and>
     (\<forall>s. held s \<le> 0 \<longrightarrow> sem_Release S s = None)"

lemma sem_new:
  assumes "sem_laws S held cap"
  shows "held (sem_NewWeighted S n) = 0" "cap (sem_NewWeighted S n) = n"
  using assms by (simp_all add: sem_laws_def)

lemma sem_try:
  assumes "sem_laws S held cap" "sem_TryAcquire S s = Some s'"
  shows "held s < cap s" "held s' = held s + 1" "cap s' = cap s"
proof -
  have "held s < cap s" using assms by (metis not_le option.discI sem_laws_def)
  moreover from this obtain s'' where "sem_TryAcquire S s = Some s''" "held s'' = held s + 1" "cap s'' = cap s"
    using assms(1) unfolding sem_laws_def by blast
  ultimately show "held s < cap s" "held s' = held s + 1" "cap s' = cap s"
    using assms(2) by auto
qed

lemma sem_try_full:
  assumes "sem_laws S held cap"
  shows "sem_TryAcquire S s = None \<longleftrightarrow> cap s \<le> held s"
  using assms by (metis not_le option.discI sem_laws_def)

lemma sem_release:
  assumes "sem_laws S held cap" "0 < held s"
  shows "\<exists>s'. sem_Release S s = Some s' \<and> held s' = held s - 1 \<and> cap s' = cap s"
  using assms by (simp add: sem_laws_def)

lemma sem_release_None:
  assumes "sem_laws S held cap"
  shows "sem_Release S s = None \<longleftrightarrow> held s \<le> 0"
  using assms by (metis not_le option.discI sem_laws_def)

text \<open>One semaphore with this behaviour: the pair of size and number held.\<close>

definition count_sem :: "(int \<times> int) semaphore" where
  "count_sem =
     \<lparr>sem_NewWeighted = (\<lambda>n. (n, 0)),
      sem_TryAcquire = (\<lambda>(n, h). if h < n then Some (n, h + 1) else None),
      sem_Release = (\<lambda>(n, h). if 0 < h then Some (n, h - 1) else None)\<rparr>"

lemma count_sem_laws: "sem_laws count_sem snd fst"
  by (auto simp: sem_laws_def count_sem_def)

end
