(* ===== verification/Gatekeeper.thy ===== *)
theory Gatekeeper
  imports Auth_Blocker Net_Address Authenticator Host_Key Semaphore
begin

text \<open>
  Who gets in: the part of \<open>src/pkg/server/server.go\<close> from \<open>NewServer\<close> to the end of the SSH
  handshake. \<open>PasswordCallback\<close> is the closure of \<open>Start\<close>; its two clock readings (in \<open>IsBlocked\<close> and
  in \<open>RecordFailure\<close>) are the arguments \<open>tchk\<close> and \<open>tfail\<close>. \<open>ssh.NewServerConn\<close> is third-party code:
  a connection's \<open>attempts\<close> are the passwords it passes to the callback, in order, up to the first that
  is accepted, and \<open>completes\<close> is whether the rest of the handshake succeeds.
\<close>

section \<open>The server\<close>

record ('d, 's, 'g) Server =
  srv_cfg :: ServerConfig
  srv_auth :: Authenticator
  srv_blocker :: "'d AuthBlocker option"
  srv_sem :: 's
  srv_signer :: 'g
  srv_started :: gotime

datatype server_error =
    InvalidConfig config_error
  | SignerError key_error
  | BlockerError blocker_error

definition blocker_config :: "ServerConfig \<Rightarrow> AuthBlockerConfig" where
  "blocker_config cfg =
     (let dbPath = (if sc_AuthBlockDBPath cfg = '''' then DefaultAuthDBPath else sc_AuthBlockDBPath cfg)
      in \<lparr>bc_DBPath = dbPath, bc_MaxFailures = sc_AuthMaxFailures cfg,
          bc_BlockDuration = seconds (sc_AuthBlockDuration cfg), bc_LRUSize = sc_AuthLRUSize cfg,
          bc_CleanInterval = seconds (sc_AuthCleanInterval cfg),
          bc_RecordTTL = seconds (sc_AuthRecordTTL cfg)\<rparr>)"

definition NewServer ::
  "'d store_env \<Rightarrow> ('k, 'g, 'p) key_env \<Rightarrow> 's semaphore \<Rightarrow> (string \<Rightarrow> bool) \<Rightarrow> 'k option \<Rightarrow> gotime \<Rightarrow>
     ServerConfig \<Rightarrow> file_system \<Rightarrow> (server_error + ('d, 's, 'g) Server) \<times> file_system" where
  "NewServer E K S mkdir gen now cfg fs =
     (case server_Validate cfg of
        Some err \<Rightarrow> (Inl (InvalidConfig err), fs)
      | None \<Rightarrow>
          (case LoadOrGenerateSigner K gen (sc_HostKeyPath cfg) fs of
             (Inl err, fs') \<Rightarrow> (Inl (SignerError err), fs')
           | (Inr signer, fs') \<Rightarrow>
               (let s = \<lparr>srv_cfg = cfg, srv_auth = NewAuthenticator (sc_Token cfg), srv_blocker = None,
                         srv_sem = sem_NewWeighted S (sc_MaxConnections cfg), srv_signer = signer,
                         srv_started = now\<rparr>
                in if \<not> sc_AuthDisabled cfg then
                     (case NewAuthBlocker E mkdir (blocker_config cfg) of
                        Inl err \<Rightarrow> (Inl (BlockerError err), fs')
                      | Inr b \<Rightarrow> (Inr (s\<lparr>srv_blocker := Some b\<rparr>), fs'))
                   else (Inr s, fs'))))"

text \<open>\<open>Server.Close\<close> (\<open>None\<close>: the panic of closing twice).\<close>

definition server_Close :: "'d store_env \<Rightarrow> ('d, 's, 'g) Server \<Rightarrow> ('d, 's, 'g) Server option" where
  "server_Close E s =
     (case srv_blocker s of
        None \<Rightarrow> Some s
      | Some b \<Rightarrow> map_option (\<lambda>b'. s\<lparr>srv_blocker := Some b'\<rparr>) (blocker_Close E b))"

section \<open>Password authentication\<close>

datatype auth_error =
    IPBlocked string
  | InvalidAuthData string
  | AuthenticationFailed string

definition srv_IsBlocked ::
  "'d store_env \<Rightarrow> string \<Rightarrow> gotime \<Rightarrow> ('d, 's, 'g) Server \<Rightarrow> bool \<times> ('d, 's, 'g) Server" where
  "srv_IsBlocked E ip now s =
     (case srv_blocker s of
        None \<Rightarrow> (False, s)
      | Some b \<Rightarrow> (case IsBlocked E ip now b of (x, b') \<Rightarrow> (x, s\<lparr>srv_blocker := Some b'\<rparr>)))"

definition srv_RecordFailure ::
  "'d store_env \<Rightarrow> string \<Rightarrow> gotime \<Rightarrow> ('d, 's, 'g) Server \<Rightarrow> ('d, 's, 'g) Server" where
  "srv_RecordFailure E ip now s =
     (case srv_blocker s of None \<Rightarrow> s | Some b \<Rightarrow> s\<lparr>srv_blocker := Some (RecordFailure E ip now b)\<rparr>)"

definition srv_ResetFailure ::
  "'d store_env \<Rightarrow> string \<Rightarrow> ('d, 's, 'g) Server \<Rightarrow> ('d, 's, 'g) Server" where
  "srv_ResetFailure E ip s =
     (case srv_blocker s of None \<Rightarrow> s | Some b \<Rightarrow> s\<lparr>srv_blocker := Some (ResetFailure E ip b)\<rparr>)"

definition PasswordCallback ::
  "'d store_env \<Rightarrow> string \<Rightarrow> string \<Rightarrow> gotime \<Rightarrow> gotime \<Rightarrow> ('d, 's, 'g) Server \<Rightarrow>
     auth_error option \<times> ('d, 's, 'g) Server" where
  "PasswordCallback E remoteAddr pass tchk tfail s =
     (let ip = ExtractIP remoteAddr
      in case srv_IsBlocked E ip tchk s of
           (blocked, s1) \<Rightarrow>
             if blocked then (Some (IPBlocked ip), s1)
             else if length pass < 32 then
               (Some (InvalidAuthData remoteAddr), srv_RecordFailure E ip tfail s1)
             else
               (let challenge = take 32 pass; response = drop 32 pass
                in if \<not> ValidateResponse (srv_auth s1) challenge response then
                     (Some (AuthenticationFailed remoteAddr), srv_RecordFailure E ip tfail s1)
                   else (None, srv_ResetFailure E ip s1)))"

section \<open>A connection up to the end of its handshake\<close>

text \<open>The attempts of one connection; the last component is whether one was accepted.\<close>

fun handshake_auth ::
  "'d store_env \<Rightarrow> string \<Rightarrow> (string \<times> gotime \<times> gotime) list \<Rightarrow> ('d, 's, 'g) Server \<Rightarrow>
     bool \<times> ('d, 's, 'g) Server" where
  "handshake_auth E remoteAddr [] s = (False, s)"
| "handshake_auth E remoteAddr ((pass, tchk, tfail) # as) s =
     (case PasswordCallback E remoteAddr pass tchk tfail s of
        (None, s') \<Rightarrow> (True, s')
      | (Some err, s') \<Rightarrow> handshake_auth E remoteAddr as s')"

datatype conn_outcome = RefusedBeforeHandshake | HandshakeFailed | Established

definition handleConnection_entry ::
  "'d store_env \<Rightarrow> string \<Rightarrow> gotime \<Rightarrow> (string \<times> gotime \<times> gotime) list \<Rightarrow> bool \<Rightarrow> ('d, 's, 'g) Server \<Rightarrow>
     conn_outcome \<times> ('d, 's, 'g) Server" where
  "handleConnection_entry E remoteAddr now attempts completes s =
     (case srv_IsBlocked E (ExtractIP remoteAddr) now s of
        (blocked, s1) \<Rightarrow>
          if blocked then (RefusedBeforeHandshake, s1)
          else (case handshake_auth E remoteAddr attempts s1 of
                  (accepted, s2) \<Rightarrow> (if accepted \<and> completes then Established else HandshakeFailed, s2)))"

section \<open>What one attempt does\<close>

definition good_password :: "Authenticator \<Rightarrow> string \<Rightarrow> bool" where
  "good_password a pass \<longleftrightarrow> 32 \<le> length pass \<and> ValidateResponse a (take 32 pass) (drop 32 pass)"

definition view_blocked :: "(string \<rightharpoonup> AuthFailureRecord) \<Rightarrow> string \<Rightarrow> gotime \<Rightarrow> bool" where
  "view_blocked v ip t \<longleftrightarrow> (case v ip of None \<Rightarrow> False | Some r \<Rightarrow> record_IsBlocked r t)"

text \<open>The server and its blocker agree with the policy's map \<open>v\<close>.\<close>

definition guards :: "'d store_env \<Rightarrow> ('d \<Rightarrow> bool) \<Rightarrow> ('d, 's, 'g) Server \<Rightarrow> 'd AuthBlocker \<Rightarrow>
    (string \<rightharpoonup> AuthFailureRecord) \<Rightarrow> bool" where
  "guards E ok s b v \<longleftrightarrow> srv_blocker s = Some b \<and> blocker_inv E ok b \<and> blocker_view E b = v"

definition same_server :: "('d, 's, 'g) Server \<Rightarrow> ('d, 's, 'g) Server \<Rightarrow> bool" where
  "same_server s s' \<longleftrightarrow> srv_auth s' = srv_auth s \<and> srv_cfg s' = srv_cfg s \<and> srv_sem s' = srv_sem s \<and>
     srv_signer s' = srv_signer s \<and> srv_started s' = srv_started s"

lemma same_server_trans: "same_server a b \<Longrightarrow> same_server b c \<Longrightarrow> same_server a c"
  by (simp add: same_server_def)

lemma srv_IsBlocked_correct:
  assumes "guards E ok s b v"
  shows "fst (srv_IsBlocked E ip t s) = view_blocked v ip t"
    and "\<exists>b'. guards E ok (snd (srv_IsBlocked E ip t s)) b' v \<and> same_params b b'"
    and "same_server s (snd (srv_IsBlocked E ip t s))"
  using assms IsBlocked_correct [of E ok b ip t]
  by (auto simp: srv_IsBlocked_def guards_def view_blocked_def same_server_def split: prod.splits option.splits)

lemma srv_RecordFailure_correct:
  assumes "guards E ok s b v" "valid_ip ip" "time_ok t" "time_ok (t + ab_blockDur b)"
  shows "\<exists>b'. guards E ok (srv_RecordFailure E ip t s) b'
        (v(ip \<mapsto> record_fail (ab_maxFailures b) (ab_blockDur b) t (prior_record (v ip)))) \<and> same_params b b'"
    and "same_server s (srv_RecordFailure E ip t s)"
  using assms RecordFailure_correct [of E ok b ip t]
  by (auto simp: srv_RecordFailure_def guards_def same_server_def)

lemma srv_ResetFailure_correct:
  assumes "guards E ok s b v"
  shows "\<exists>b'. guards E ok (srv_ResetFailure E ip s) b' (v(ip := None)) \<and> same_params b b'"
    and "same_server s (srv_ResetFailure E ip s)"
  using assms ResetFailure_correct [of E ok b ip]
  by (auto simp: srv_ResetFailure_def guards_def same_server_def)

lemma PasswordCallback_result:
  assumes "guards E ok s b v"
  shows "fst (PasswordCallback E addr pass tchk tfail s) =
    (if view_blocked v (ExtractIP addr) tchk then Some (IPBlocked (ExtractIP addr))
     else if length pass < 32 then Some (InvalidAuthData addr)
     else if good_password (srv_auth s) pass then None else Some (AuthenticationFailed addr))"
  using srv_IsBlocked_correct [OF assms, of "ExtractIP addr" tchk]
  by (auto simp: PasswordCallback_def Let_def good_password_def same_server_def split: prod.splits)

lemma PasswordCallback_view:
  assumes g: "guards E ok s b v" and ip: "valid_ip (ExtractIP addr)"
    and t: "time_ok tfail" "time_ok (tfail + ab_blockDur b)"
  defines "ip \<equiv> ExtractIP addr"
  shows "\<exists>b'. guards E ok (snd (PasswordCallback E addr pass tchk tfail s)) b'
      (if view_blocked v ip tchk then v
       else if good_password (srv_auth s) pass then v(ip := None)
       else v(ip \<mapsto> record_fail (ab_maxFailures b) (ab_blockDur b) tfail (prior_record (v ip)))) \<and>
    same_params b b' \<and> same_server s (snd (PasswordCallback E addr pass tchk tfail s))"
proof -
  obtain blocked s1 where chk: "srv_IsBlocked E ip tchk s = (blocked, s1)" by fastforce
  note c = srv_IsBlocked_correct [OF g, of ip tchk, unfolded chk, simplified]
  obtain b1 where b1: "guards E ok s1 b1 v" "same_params b b1" using c(2) by blast
  have auth: "srv_auth s1 = srv_auth s" using c(3) by (simp add: same_server_def)
  have p: "ab_maxFailures b1 = ab_maxFailures b" "ab_blockDur b1 = ab_blockDur b"
    using b1(2) by (simp_all add: same_params_def)
  note fail = srv_RecordFailure_correct [OF b1(1) ip t(1) t(2) [folded p(2)], folded ip_def]
    and reset = srv_ResetFailure_correct [OF b1(1), of ip]
  have res: "snd (PasswordCallback E addr pass tchk tfail s) =
      (if blocked then s1 else if good_password (srv_auth s) pass then srv_ResetFailure E ip s1
       else srv_RecordFailure E ip tfail s1)"
    by (simp add: PasswordCallback_def Let_def good_password_def chk auth flip: ip_def)
  show ?thesis
    unfolding res using c(1,3) b1 fail reset p
    by (auto intro: same_params_trans same_server_trans)
qed

section \<open>The history of the gate\<close>

text \<open>Attempts, pre-handshake checks and cleanings of all connections, in the order they happen, with a log
  of the attempts' results and of the clock readings.\<close>

datatype gate_event =
    Attempt string string gotime gotime
  | PreCheck string gotime
  | Cleanup gotime

record ('d, 's, 'g) gate =
  gt_srv :: "('d, 's, 'g) Server"
  gt_log :: "(string \<times> auth_error option \<times> gotime) list"
  gt_clock :: "gotime list"

fun gate_step :: "'d store_env \<Rightarrow> ('d, 's, 'g) gate \<Rightarrow> gate_event \<Rightarrow> ('d, 's, 'g) gate" where
  "gate_step E g (Attempt addr pass tchk tfail) =
     (case PasswordCallback E addr pass tchk tfail (gt_srv g) of
        (r, s') \<Rightarrow> g\<lparr>gt_srv := s', gt_log := gt_log g @ [(ExtractIP addr, r, tfail)],
                     gt_clock := gt_clock g @ [tchk, tfail]\<rparr>)"
| "gate_step E g (PreCheck addr t) =
     g\<lparr>gt_srv := snd (srv_IsBlocked E (ExtractIP addr) t (gt_srv g)), gt_clock := gt_clock g @ [t]\<rparr>"
| "gate_step E g (Cleanup t) =
     g\<lparr>gt_srv := (gt_srv g)\<lparr>srv_blocker := map_option (cleanExpired E t) (srv_blocker (gt_srv g))\<rparr>,
       gt_clock := gt_clock g @ [t]\<rparr>"

definition is_guess :: "auth_error option \<Rightarrow> bool" where
  "is_guess r = (case r of Some (InvalidAuthData a) \<Rightarrow> True | Some (AuthenticationFailed a) \<Rightarrow> True | _ \<Rightarrow> False)"

text \<open>The times of the wrong passwords of \<open>ip\<close> that were compared with the secret.\<close>

definition guesses :: "string \<Rightarrow> (string \<times> auth_error option \<times> gotime) list \<Rightarrow> gotime list" where
  "guesses ip log = map (\<lambda>(i, r, t). t) (filter (\<lambda>(i, r, t). i = ip \<and> is_guess r) log)"

definition logins :: "string \<Rightarrow> (string \<times> auth_error option \<times> gotime) list \<Rightarrow> gotime list" where
  "logins ip log = map (\<lambda>(i, r, t). t) (filter (\<lambda>(i, r, t). i = ip \<and> r = None) log)"

text \<open>Any \<open>k + 1\<close> successive times span at least \<open>D\<close>.\<close>

definition spaced :: "nat \<Rightarrow> duration \<Rightarrow> gotime list \<Rightarrow> bool" where
  "spaced k D ts \<longleftrightarrow> (\<forall>i. i + k < length ts \<longrightarrow> ts ! i + D \<le> ts ! (i + k))"

text \<open>How the record \<open>r\<close> of an address reflects its guesses \<open>ts\<close>: none of them is recent, or it counts the
  last \<open>n\<close>, and those before are at least \<open>D\<close> older.\<close>

definition rate_record :: "int \<Rightarrow> duration \<Rightarrow> duration \<Rightarrow> gotime list \<Rightarrow> AuthFailureRecord option \<Rightarrow> gotime \<Rightarrow> bool" where
  "rate_record maxF dur D ts r now \<longleftrightarrow>
     (case r of
        None \<Rightarrow> (\<forall>x \<in> set ts. x + D \<le> now)
      | Some r \<Rightarrow>
          (\<exists>n. 1 \<le> n \<and> n \<le> length ts \<and> FailCount r = int n \<and> LastFailAt r = last ts \<and>
             BlockedUntil r = (if maxF \<le> int n then last ts + dur else 0) \<and>
             (\<forall>i < length ts - n. ts ! i + D \<le> ts ! (length ts - n))))"

definition rate_inv :: "int \<Rightarrow> duration \<Rightarrow> duration \<Rightarrow> gotime list \<Rightarrow> AuthFailureRecord option \<Rightarrow> gotime \<Rightarrow> bool" where
  "rate_inv maxF dur D ts r now \<longleftrightarrow>
     sorted ts \<and> (\<forall>x \<in> set ts. 0 < x \<and> x \<le> now) \<and> spaced (nat maxF) D ts \<and> rate_record maxF dur D ts r now"

lemma rate_later: "rate_inv maxF dur D ts r now \<Longrightarrow> now \<le> t \<Longrightarrow> rate_inv maxF dur D ts r t"
  by (auto simp: rate_inv_def rate_record_def split: option.splits)

lemma last_sorted: "sorted ts \<Longrightarrow> x \<in> set ts \<Longrightarrow> x \<le> last ts" for ts :: "int list"
  by (induction ts) (auto split: if_splits)

lemma rate_clean:
  assumes "rate_inv maxF dur D ts r now" "now \<le> t" "D \<le> ttl"
  shows "rate_inv maxF dur D ts
    (case r of None \<Rightarrow> None | Some r \<Rightarrow> if record_expired ttl t r then None else Some r) t"
proof (cases "\<exists>r'. r = Some r' \<and> record_expired ttl t r'")
  case True
  then obtain r' where r': "r = Some r'" "record_expired ttl t r'" by blast
  have s: "sorted ts" "spaced (nat maxF) D ts" "\<And>x. x \<in> set ts \<Longrightarrow> 0 < x \<and> x \<le> t" and "LastFailAt r' = last ts"
    using assms(1,2) r' by (auto simp: rate_inv_def rate_record_def)
  then have "x + D \<le> t" if "x \<in> set ts" for x
    using last_sorted [OF s(1) that] s(3) [OF that] r'(2) assms(3)
    by (auto simp: record_expired_def Let_def split: if_splits)
  then show ?thesis using s r' by (simp add: rate_inv_def rate_record_def)
next
  case False
  then show ?thesis using rate_later [OF assms(1,2)] by (auto split: option.splits)
qed

lemma spaced_snoc:
  "spaced k D (ts @ [t]) \<longleftrightarrow> spaced k D ts \<and> (k \<le> length ts \<longrightarrow> (ts @ [t]) ! (length ts - k) + D \<le> t)"
proof
  assume *: "spaced k D (ts @ [t])"
  have "ts ! i + D \<le> ts ! (i + k)" if "i + k < length ts" for i
    using * [unfolded spaced_def, rule_format, of i] that by (simp add: nth_append)
  moreover have "(ts @ [t]) ! (length ts - k) + D \<le> t" if "k \<le> length ts"
    using * [unfolded spaced_def, rule_format, of "length ts - k"] that by (simp add: nth_append)
  ultimately show "spaced k D ts \<and> (k \<le> length ts \<longrightarrow> (ts @ [t]) ! (length ts - k) + D \<le> t)"
    by (simp add: spaced_def)
next
  assume *: "spaced k D ts \<and> (k \<le> length ts \<longrightarrow> (ts @ [t]) ! (length ts - k) + D \<le> t)"
  have "(ts @ [t]) ! i + D \<le> (ts @ [t]) ! (i + k)" if "i + k < Suc (length ts)" for i
  proof (cases "i + k = length ts")
    case True
    then have "length ts - k = i" "k \<le> length ts" by arith+
    with True show ?thesis using * by simp
  next
    case False
    then show ?thesis using * that by (simp add: spaced_def nth_append)
  qed
  then show "spaced k D (ts @ [t])" by (simp add: spaced_def)
qed

lemma rate_fail:
  assumes inv: "rate_inv maxF dur D ts r now" and t: "now \<le> tchk" "tchk \<le> t" "0 < t"
    and open_gate: "\<not> (case r of None \<Rightarrow> False | Some r \<Rightarrow> record_IsBlocked r tchk)"
    and D: "D \<le> dur" "0 < maxF" "0 < dur" and len: "int (length ts) < max_int64"
  shows "rate_inv maxF dur D (ts @ [t]) (Some (record_fail maxF dur t (prior_record r))) t"
proof -
  have ts: "sorted ts" "spaced (nat maxF) D ts" "\<And>x. x \<in> set ts \<Longrightarrow> 0 < x \<and> x \<le> t"
    using inv t by (auto simp: rate_inv_def)
  have srt: "sorted (ts @ [t])" using ts by (simp add: sorted_append)
  have fail: "record_fail maxF dur t (prior_record r) =
      \<lparr>FailCount = int m, LastFailAt = t, BlockedUntil = (if maxF \<le> int m then t + dur else 0)\<rparr>"
    if "FailCount (prior_record r) + 1 = int m" "int m \<le> max_int64"
      "int m < maxF \<longrightarrow> BlockedUntil (prior_record r) = 0" for m
    using that by (cases "prior_record r") (auto simp: record_fail_def Let_def)
  show ?thesis
  proof (cases r)
    case None
    have old: "x + D \<le> t" if "x \<in> set ts" for x
      using inv None that t by (auto simp: rate_inv_def rate_record_def)
    have "(ts @ [t]) ! (length ts - nat maxF) + D \<le> t" if "nat maxF \<le> length ts"
    proof -
      have "length ts - nat maxF < length ts" using that D(2) by linarith
      then show ?thesis using old by (simp add: nth_append)
    qed
    moreover have "record_fail maxF dur t (prior_record r) =
        \<lparr>FailCount = int 1, LastFailAt = t, BlockedUntil = (if maxF \<le> int 1 then t + dur else 0)\<rparr>"
      by (rule fail) (simp_all add: None prior_record_def zero_record_def)
    ultimately show ?thesis
      using ts srt t(3) old by (auto simp: rate_inv_def spaced_snoc rate_record_def nth_append intro!: exI [of _ 1])
  next
    case (Some r')
    obtain n where n: "1 \<le> n" "n \<le> length ts" "FailCount r' = int n"
        "BlockedUntil r' = (if maxF \<le> int n then last ts + dur else 0)"
        "\<And>i. i < length ts - n \<Longrightarrow> ts ! i + D \<le> ts ! (length ts - n)"
      using inv Some by (auto simp: rate_inv_def rate_record_def)
    have nth_le: "ts ! i \<le> t" if "i < length ts" for i using ts(3) that by simp
    have gap: "(ts @ [t]) ! (length ts - nat maxF) + D \<le> t" if big: "nat maxF \<le> length ts"
    proof (cases "maxF \<le> int n")
      case True
      have "ts \<noteq> []" using n(1,2) by auto
      then have "0 < last ts" "ts ! (length ts - nat maxF) \<le> last ts"
        using ts(3) last_sorted [OF ts(1)] big D(2) by auto
      moreover have "last ts + dur \<le> tchk"
        using open_gate Some True n(4) \<open>0 < last ts\<close> D(3) by (auto simp: record_IsBlocked_def)
      ultimately show ?thesis using t D big by (auto simp: nth_append)
    next
      case False
      then have "length ts - nat maxF < length ts - n" using big by arith
      moreover have "length ts - n < length ts" using n(1,2) by linarith
      ultimately show ?thesis
        using n(5) [of "length ts - nat maxF"] nth_le [of "length ts - n"] by (simp add: nth_append)
    qed
    have "record_fail maxF dur t (prior_record r) =
        \<lparr>FailCount = int (Suc n), LastFailAt = t, BlockedUntil = (if maxF \<le> int (Suc n) then t + dur else 0)\<rparr>"
      by (rule fail) (use Some n len in \<open>auto simp: prior_record_def\<close>)
    moreover have "\<forall>i < length ts - n. (ts @ [t]) ! i + D \<le> (ts @ [t]) ! (length ts - n)"
      using n(1,2,5) by (simp add: nth_append)
    ultimately show ?thesis
      using ts srt t(3) gap n(1,2)
      by (auto simp: rate_inv_def spaced_snoc rate_record_def intro!: exI [of _ "Suc n"])
  qed
qed

text \<open>The clock readings never ran backwards; the latest of them.\<close>

definition forward :: "gotime list \<Rightarrow> bool" where
  "forward ts \<longleftrightarrow> sorted (0 # ts)"

definition latest :: "gotime list \<Rightarrow> gotime" where
  "latest ts = last (0 # ts)"

lemma forward_snoc: "forward (ts @ [t]) \<longleftrightarrow> forward ts \<and> latest ts \<le> t"
proof -
  have "sorted (xs @ [t]) \<longleftrightarrow> sorted xs \<and> last xs \<le> t" if "xs \<noteq> []" for xs :: "int list"
    using last_sorted [of xs] last_in_set [OF that] by (force simp: sorted_append)
  from this [of "0 # ts"] show ?thesis by (simp only: forward_def latest_def append_Cons) simp
qed

lemma latest_snoc [simp]: "latest (ts @ [t]) = t"
  by (simp add: latest_def)

text \<open>The state of the gate with respect to one address: the server still guards, the clock never ran
  backwards, and as long as the address did not log in its guesses are rate limited.\<close>

definition gate_inv ::
  "'d store_env \<Rightarrow> ('d \<Rightarrow> bool) \<Rightarrow> int \<Rightarrow> duration \<Rightarrow> duration \<Rightarrow> string \<Rightarrow> ('d, 's, 'g) gate \<Rightarrow> bool" where
  "gate_inv E ok maxF dur ttl ip g \<longleftrightarrow>
     0 < maxF \<and> 0 < dur \<and>
     (\<exists>b v. guards E ok (gt_srv g) b v \<and> ab_maxFailures b = maxF \<and> ab_blockDur b = dur \<and>
        ab_recordTTL b = ttl \<and>
        (forward (gt_clock g) \<and> logins ip (gt_log g) = [] \<and> int (length (guesses ip (gt_log g))) < max_int64 \<longrightarrow>
           rate_inv maxF dur (min dur ttl) (guesses ip (gt_log g)) (v ip) (latest (gt_clock g))))"

fun gate_event_ok :: "duration \<Rightarrow> gate_event \<Rightarrow> bool" where
  "gate_event_ok dur (Attempt addr pass tchk tfail) \<longleftrightarrow>
     valid_ip (ExtractIP addr) \<and> 0 < tfail \<and> time_ok tfail \<and> time_ok (tfail + dur)"
| "gate_event_ok dur _ \<longleftrightarrow> True"

lemma guesses_snoc:
  "guesses ip (log @ [(i, r, t)]) = guesses ip log @ (if i = ip \<and> is_guess r then [t] else [])"
  "logins ip (log @ [(i, r, t)]) = logins ip log @ (if i = ip \<and> r = None then [t] else [])"
  by (simp_all add: guesses_def logins_def)

text \<open>What an attempt does to the guesses of \<open>ip\<close>.\<close>

definition attempt_view ::
  "Authenticator \<Rightarrow> int \<Rightarrow> duration \<Rightarrow> string \<Rightarrow> string \<Rightarrow> gotime \<Rightarrow> gotime \<Rightarrow> (string \<rightharpoonup> AuthFailureRecord) \<Rightarrow>
     (string \<rightharpoonup> AuthFailureRecord)" where
  "attempt_view auth maxF dur i pass tchk tfail v =
     (if view_blocked v i tchk then v
      else if good_password auth pass then v(i := None)
      else v(i \<mapsto> record_fail maxF dur tfail (prior_record (v i))))"

lemma gate_attempt_rate:
  fixes g :: "('d, 's, 'g) gate"
  assumes g: "guards E ok (gt_srv g) b v" and pos: "0 < maxF" "0 < dur" "0 < tfail"
    and cb: "PasswordCallback E addr pass tchk tfail (gt_srv g) = (r, s')"
    and rate: "forward (gt_clock g) \<Longrightarrow> logins ip (gt_log g) = [] \<Longrightarrow>
      int (length (guesses ip (gt_log g))) < max_int64 \<Longrightarrow>
      rate_inv maxF dur (min dur ttl) (guesses ip (gt_log g)) (v ip) (latest (gt_clock g))"
    and new: "forward (gt_clock (gate_step E g (Attempt addr pass tchk tfail)))"
      "logins ip (gt_log (gate_step E g (Attempt addr pass tchk tfail))) = []"
      "int (length (guesses ip (gt_log (gate_step E g (Attempt addr pass tchk tfail))))) < max_int64"
  shows "rate_inv maxF dur (min dur ttl) (guesses ip (gt_log (gate_step E g (Attempt addr pass tchk tfail))))
    (attempt_view (srv_auth (gt_srv g)) maxF dur (ExtractIP addr) pass tchk tfail v ip)
    (latest (gt_clock (gate_step E g (Attempt addr pass tchk tfail))))"
proof -
  let ?now = "latest (gt_clock g)"
  note res = PasswordCallback_result [OF g, of addr pass tchk tfail, unfolded cb, simplified]
  have times: "forward (gt_clock g)" "?now \<le> tchk" "tchk \<le> tfail"
    using new(1) forward_snoc [of "gt_clock g @ [tchk]" tfail] by (simp_all add: cb forward_snoc)
  have old: "rate_inv maxF dur (min dur ttl) (guesses ip (gt_log g)) (v ip) ?now"
    using new by (intro rate times) (auto simp: cb guesses_snoc split: if_splits)
  show ?thesis
  proof (cases "ExtractIP addr = ip \<and> is_guess r")
    case True
    then have "\<not> view_blocked v ip tchk" "\<not> good_password (srv_auth (gt_srv g)) pass"
      using res by (auto simp: is_guess_def good_password_def split: if_splits)
    moreover have "int (length (guesses ip (gt_log g))) < max_int64"
      using new(3) True by (simp add: cb guesses_snoc)
    ultimately show ?thesis
      using rate_fail [OF old times(2,3) pos(3)] pos True latest_snoc [of "gt_clock g @ [tchk]" tfail]
      by (simp add: cb guesses_snoc view_blocked_def attempt_view_def)
  next
    case False
    then have "attempt_view (srv_auth (gt_srv g)) maxF dur (ExtractIP addr) pass tchk tfail v ip = v ip"
      using res new(2) by (auto simp: attempt_view_def cb guesses_snoc is_guess_def good_password_def split: if_splits)
    then show ?thesis
      using rate_later [OF old, of tfail] times False latest_snoc [of "gt_clock g @ [tchk]" tfail]
      by (auto simp: cb guesses_snoc)
  qed
qed

lemma gate_step_inv:
  fixes g :: "('d, 's, 'g) gate"
  assumes "gate_inv E ok maxF dur ttl ip g" "gate_event_ok dur e"
  shows "gate_inv E ok maxF dur ttl ip (gate_step E g e)"
proof -
  obtain b v where g: "guards E ok (gt_srv g) b v"
    and p: "ab_maxFailures b = maxF" "ab_blockDur b = dur" "ab_recordTTL b = ttl" "0 < maxF" "0 < dur"
    and rate: "forward (gt_clock g) \<Longrightarrow> logins ip (gt_log g) = [] \<Longrightarrow>
      int (length (guesses ip (gt_log g))) < max_int64 \<Longrightarrow>
      rate_inv maxF dur (min dur ttl) (guesses ip (gt_log g)) (v ip) (latest (gt_clock g))"
    using assms(1) by (auto simp: gate_inv_def)
  have inv: "gate_inv E ok maxF dur ttl ip g'"
    if "guards E ok (gt_srv g') b' v'" "same_params b b'"
      and "forward (gt_clock g') \<Longrightarrow> logins ip (gt_log g') = [] \<Longrightarrow>
        int (length (guesses ip (gt_log g'))) < max_int64 \<Longrightarrow>
        rate_inv maxF dur (min dur ttl) (guesses ip (gt_log g')) (v' ip) (latest (gt_clock g'))"
    for g' :: "('d, 's, 'g) gate" and b' v'
    unfolding gate_inv_def using that p
    by (intro conjI exI [of _ b'] exI [of _ v'] impI) (simp_all add: same_params_def)
  show ?thesis
  proof (cases e)
    case (Attempt addr pass tchk tfail)
    have ok: "valid_ip (ExtractIP addr)" "0 < tfail" "time_ok tfail" "time_ok (tfail + ab_blockDur b)"
      using assms(2) p by (simp_all add: Attempt)
    obtain r s' where cb: "PasswordCallback E addr pass tchk tfail (gt_srv g) = (r, s')" by fastforce
    let ?v2 = "attempt_view (srv_auth (gt_srv g)) maxF dur (ExtractIP addr) pass tchk tfail v"
    obtain b' where b': "guards E ok s' b' ?v2" "same_params b b'"
      using PasswordCallback_view [OF g ok(1,3,4), of pass tchk] p by (auto simp: cb attempt_view_def)
    have srv: "gt_srv (gate_step E g e) = s'" by (simp add: Attempt cb)
    show ?thesis
      by (rule inv [OF b'(1) [folded srv] b'(2)])
         (use gate_attempt_rate [OF g p(4,5) ok(2) cb rate] in \<open>simp add: Attempt\<close>)
  next
    case (PreCheck addr t)
    obtain b' where b': "guards E ok (snd (srv_IsBlocked E (ExtractIP addr) t (gt_srv g))) b' v" "same_params b b'"
      using srv_IsBlocked_correct(2) [OF g] by blast
    have srv: "gt_srv (gate_step E g e) = snd (srv_IsBlocked E (ExtractIP addr) t (gt_srv g))"
      by (simp add: PreCheck)
    show ?thesis
      by (rule inv [OF b'(1) [folded srv] b'(2)])
         (use rate_later [OF rate] in \<open>simp add: PreCheck forward_snoc\<close>)
  next
    case (Cleanup t)
    have b: "srv_blocker (gt_srv g) = Some b" "blocker_inv E ok b" "blocker_view E b = v"
      using g by (simp_all add: guards_def)
    note c = cleanExpired_correct [OF b(2), of t]
    have "guards E ok (gt_srv (gate_step E g e)) (cleanExpired E t b) (blocker_view E (cleanExpired E t b))"
      using b c(1) by (simp add: Cleanup guards_def)
    then show ?thesis
      by (rule inv [OF _ c(3)])
         (use rate_clean [OF rate, of t ttl] in \<open>simp add: Cleanup c(2) [unfolded p(3)] b(3) forward_snoc\<close>)
  qed
qed

interpretation gate: event_machine "gate_step E" "gate_event_ok dur" "gate_inv E ok maxF dur ttl ip"
  for E ok maxF dur ttl ip
  by unfold_locales (rule gate_step_inv)

section \<open>The gate's properties\<close>

definition gate_open :: "('d, 's, 'g) Server \<Rightarrow> ('d, 's, 'g) gate" where
  "gate_open s = \<lparr>gt_srv = s, gt_log = [], gt_clock = []\<rparr>"

lemma gate_run_rate:
  assumes "guards E ok s b v" "v ip = None" "0 < ab_maxFailures b" "0 < ab_blockDur b"
    and "list_all (gate_event_ok (ab_blockDur b)) es"
    and "forward (gt_clock (foldl (gate_step E) (gate_open s) es))"
    and "logins ip (gt_log (foldl (gate_step E) (gate_open s) es)) = []"
    and "int (length (guesses ip (gt_log (foldl (gate_step E) (gate_open s) es)))) < max_int64"
  shows "spaced (nat (ab_maxFailures b)) (min (ab_blockDur b) (ab_recordTTL b))
    (guesses ip (gt_log (foldl (gate_step E) (gate_open s) es)))"
proof -
  have "gate_inv E ok (ab_maxFailures b) (ab_blockDur b) (ab_recordTTL b) ip (gate_open s)"
    unfolding gate_inv_def gate_open_def using assms(1-4)
    by (intro conjI exI [of _ b] exI [of _ v])
       (simp_all add: guesses_def rate_inv_def spaced_def rate_record_def)
  from gate.run_inv [OF this assms(5)] show ?thesis
    using assms(6-8) by (auto simp: gate_inv_def rate_inv_def)
qed


text \<open>A server on an empty database that blocks at the first failure, for concrete runs.\<close>

definition demo_server :: "((string \<times> string) list, int \<times> int, string) Server" where
  "demo_server = \<lparr>srv_cfg = demo_scfg, srv_auth = NewAuthenticator ''secret'',
     srv_blocker = Some (demo_blocker (demo_config\<lparr>bc_MaxFailures := 1\<rparr>)),
     srv_sem = (2, 0), srv_signer = ''key'', srv_started = 1\<rparr>"

lemma demo_server_guards:
  "guards (mem_env []) mem_ok demo_server (demo_blocker (demo_config\<lparr>bc_MaxFailures := 1\<rparr>)) Map.empty"
  and demo_server_params:
    "ab_maxFailures (demo_blocker (demo_config\<lparr>bc_MaxFailures := 1\<rparr>)) = 1"
    "ab_blockDur (demo_blocker (demo_config\<lparr>bc_MaxFailures := 1\<rparr>)) = 600 * second"
    "ab_recordTTL (demo_blocker (demo_config\<lparr>bc_MaxFailures := 1\<rparr>)) = 86400 * second"
  using demo_blocker_correct [of "demo_config\<lparr>bc_MaxFailures := 1\<rparr>"]
  by (simp_all add: demo_server_def guards_def blocker_defaults_def demo_config_def)

lemma demo_ip: "ExtractIP ''10.0.0.1:4000'' = ''10.0.0.1''" "valid_ip ''10.0.0.1''"
  by (code_simp, simp add: valid_ip_def)

text \<open>Two wrong passwords, the second after the block of the first has run out.\<close>

definition demo_events :: "gate_event list" where
  "demo_events = [Attempt ''10.0.0.1:4000'' ''x'' 5 5,
     Attempt ''10.0.0.1:4000'' ''y'' (700 * second) (700 * second)]"

lemma demo_log:
  "gt_log (foldl (gate_step (mem_env [])) (gate_open demo_server) demo_events) =
     [(''10.0.0.1'', Some (InvalidAuthData ''10.0.0.1:4000''), 5),
      (''10.0.0.1'', Some (InvalidAuthData ''10.0.0.1:4000''), 700 * second)]"
  "gt_clock (foldl (gate_step (mem_env [])) (gate_open demo_server) demo_events) =
     [5, 5, 700 * second, 700 * second]"
proof -
  let ?E = "mem_env []" and ?a = "''10.0.0.1:4000''"
  obtain r1 s1 where 1: "PasswordCallback ?E ?a ''x'' 5 5 demo_server = (r1, s1)" by fastforce
  obtain r2 s2 where 2: "PasswordCallback ?E ?a ''y'' (700 * second) (700 * second) s1 = (r2, s2)" by fastforce
  note g = demo_server_guards and p = demo_server_params
  have r1: "r1 = Some (InvalidAuthData ?a)"
    using PasswordCallback_result [OF g, of ?a "''x''" 5 5] by (simp add: 1 demo_ip view_blocked_def)
  obtain b1 where b1: "guards ?E mem_ok s1 b1
      [''10.0.0.1'' \<mapsto> record_fail 1 (600 * second) 5 zero_record]"
    using PasswordCallback_view [OF g, of ?a 5 "''x''" 5]
    by (auto simp: 1 demo_ip time_ok_def p view_blocked_def good_password_def prior_record_def)
  have r2: "r2 = Some (InvalidAuthData ?a)"
    using PasswordCallback_result [OF b1, of ?a "''y''" "700 * second" "700 * second"] 2
    by (simp add: demo_ip view_blocked_def record_fail_def zero_record_def record_IsBlocked_def Let_def)
  show "gt_log (foldl (gate_step ?E) (gate_open demo_server) demo_events) =
     [(''10.0.0.1'', Some (InvalidAuthData ?a), 5), (''10.0.0.1'', Some (InvalidAuthData ?a), 700 * second)]"
    "gt_clock (foldl (gate_step ?E) (gate_open demo_server) demo_events) = [5, 5, 700 * second, 700 * second]"
    using 1 2 by (simp_all add: demo_events_def gate_open_def r1 r2 demo_ip)
qed


text \<open>(C24) A blocked address gets nothing: its connection is closed before the handshake whatever it would
  have sent, and an attempt it makes on a connection already open is refused with the right password
  too; neither changes the record of any address, so the deadline is not extended (a comment in the
  code and the README say that failing again inside the window extends it).\<close>

theorem blocked_address_refused:
  assumes g: "guards E ok s b v" and blocked: "view_blocked v (ExtractIP addr) t"
    and ip: "valid_ip (ExtractIP addr)" "time_ok t'" "time_ok (t' + ab_blockDur b)"
  shows "fst (handleConnection_entry E addr t attempts completes s) = RefusedBeforeHandshake \<and>
    fst (PasswordCallback E addr pass t t' s) = Some (IPBlocked (ExtractIP addr)) \<and>
    (\<exists>b1. guards E ok (snd (handleConnection_entry E addr t attempts completes s)) b1 v) \<and>
    (\<exists>b2. guards E ok (snd (PasswordCallback E addr pass t t' s)) b2 v)"
  using srv_IsBlocked_correct(1,2) [OF g, of "ExtractIP addr" t] blocked
    PasswordCallback_result [OF g, of addr pass t t'] PasswordCallback_view [OF g ip, of pass t]
  by (auto simp: handleConnection_entry_def split: prod.splits)

theorem blocked_address_refused_witness:
  "\<exists>s :: ((string \<times> string) list, int \<times> int, string) Server.
     fst (handleConnection_entry (mem_env []) ''10.0.0.1:4000'' 9
       [(client_authString (srv_auth s) (replicate 16 0), 9, 9)] True s) = RefusedBeforeHandshake"
proof -
  let ?E = "mem_env []" and ?a = "''10.0.0.1:4000''"
  note g = demo_server_guards and p = demo_server_params
  obtain b1 where b1: "guards ?E mem_ok (snd (PasswordCallback ?E ?a ''x'' 5 5 demo_server)) b1
      [''10.0.0.1'' \<mapsto> record_fail 1 (600 * second) 5 zero_record]"
      "same_params (demo_blocker (demo_config\<lparr>bc_MaxFailures := 1\<rparr>)) b1"
    using PasswordCallback_view [OF g, of ?a 5 "''x''" 5]
    by (auto simp: demo_ip time_ok_def p view_blocked_def good_password_def prior_record_def)
  have "ab_blockDur b1 = 600 * second" using b1(2) p by (simp add: same_params_def)
  then show ?thesis
    using blocked_address_refused [OF b1(1), of ?a 9 9]
    by (auto simp: demo_ip time_ok_def view_blocked_def record_fail_def zero_record_def record_IsBlocked_def Let_def)
qed

lemma srv_IsBlocked_auth: "srv_auth (snd (srv_IsBlocked E ip now s)) = srv_auth s"
  by (auto simp: srv_IsBlocked_def split: option.splits prod.splits)

lemma PasswordCallback_auth:
  "srv_auth (snd (PasswordCallback E addr pass t1 t2 s)) = srv_auth s"
  "fst (PasswordCallback E addr pass t1 t2 s) = None \<Longrightarrow> good_password (srv_auth s) pass"
  using srv_IsBlocked_auth [of E "ExtractIP addr" t1 s]
  by (auto simp: PasswordCallback_def Let_def good_password_def srv_RecordFailure_def srv_ResetFailure_def
      split: prod.splits option.splits if_splits)

lemma handshake_auth_accepted:
  "fst (handshake_auth E addr as s) \<Longrightarrow> \<exists>pass t1 t2. (pass, t1, t2) \<in> set as \<and> good_password (srv_auth s) pass"
proof (induction as arbitrary: s)
  case (Cons a as)
  obtain pass t1 t2 where a: "a = (pass, t1, t2)" by (cases a) auto
  obtain r s' where cb: "PasswordCallback E addr pass t1 t2 s = (r, s')" by fastforce
  note p = PasswordCallback_auth [of E addr pass t1 t2 s, unfolded cb, simplified]
  show ?case
  proof (cases r)
    case None
    then show ?thesis using p by (auto simp: a)
  next
    case (Some err)
    then show ?thesis using Cons.IH [of s'] Cons.prems p by (auto simp: a cb)
  qed
qed simp

text \<open>(C14) No session without the secret: a connection is established only if one of the passwords it
  offered is a challenge of 32 bytes followed by exactly the response of the token's key to it.\<close>

theorem session_needs_secret:
  assumes "fst (handleConnection_entry E addr t attempts completes s) = Established"
  shows "\<exists>(pass, t1, t2) \<in> set attempts. length pass = 96 \<and>
    pass = take 32 pass @ ComputeResponse (srv_auth s) (take 32 pass)"
proof -
  obtain pass t1 t2 where "(pass, t1, t2) \<in> set attempts" "good_password (srv_auth s) pass"
    using assms handshake_auth_accepted [of E addr attempts "snd (srv_IsBlocked E (ExtractIP addr) t s)"]
    by (auto simp: handleConnection_entry_def srv_IsBlocked_auth split: prod.splits if_splits)
  then show ?thesis
    using tbore_scheme.accepted_unique [of pass "srv_auth s"] tbore_scheme.accepted_length [of pass "srv_auth s"]
    by (auto simp: good_password_def intro!: bexI [of _ "(pass, t1, t2)"])
qed

lemma honest_password:
  assumes "length random = 16"
  shows "good_password (NewAuthenticator token) (client_authString (NewAuthenticator token) random)"
proof -
  have "length (GenerateChallenge random) = 32"
    using assms by (simp add: GenerateChallenge_def)
  with tbore_scheme.honest_accepted [OF this, of "NewAuthenticator token"] show ?thesis
    by (simp add: good_password_def client_authString_def Let_def)
qed

lemma good_password_accepted:
  assumes g: "guards E ok s b v" and "good_password (srv_auth s) pass" "\<not> view_blocked v (ExtractIP addr) tchk"
    and ip: "valid_ip (ExtractIP addr)" "time_ok t'" "time_ok (t' + ab_blockDur b)"
  shows "fst (PasswordCallback E addr pass tchk t' s) = None \<and>
    (\<exists>b'. guards E ok (snd (PasswordCallback E addr pass tchk t' s)) b' (v(ExtractIP addr := None)) \<and> same_params b b')"
proof -
  have "32 \<le> length pass" using assms(2) by (simp add: good_password_def)
  then show ?thesis
    using PasswordCallback_result [OF g, of addr pass tchk t'] PasswordCallback_view [OF g ip, of pass tchk] assms(2,3)
    by auto
qed



text \<open>(C26) Replay works: the client chooses the challenge and the server keeps no memory of it, so a password
  that was accepted once is accepted again, from any address that is not blocked, at any later time
  (the README lists protection against replay as a feature of this authentication).\<close>

theorem password_replay_accepted:
  assumes g: "guards E ok s b v" and first: "fst (PasswordCallback E addr1 pass t1 t1' s) = None"
    and ip1: "valid_ip (ExtractIP addr1)" "time_ok t1'" "time_ok (t1' + ab_blockDur b)"
    and ip2: "valid_ip (ExtractIP addr2)" "time_ok t2'" "time_ok (t2' + ab_blockDur b)"
    and free: "\<not> view_blocked v (ExtractIP addr2) t2"
  shows "fst (PasswordCallback E addr2 pass t2 t2' (snd (PasswordCallback E addr1 pass t1 t1' s))) = None"
proof -
  have good: "good_password (srv_auth s) pass" and "\<not> view_blocked v (ExtractIP addr1) t1"
    using PasswordCallback_auth(2) [OF first] first PasswordCallback_result [OF g, of addr1 pass t1 t1']
    by (auto split: if_splits)
  from good_password_accepted [OF g this ip1] obtain b1
    where b1: "guards E ok (snd (PasswordCallback E addr1 pass t1 t1' s)) b1 (v(ExtractIP addr1 := None))"
      "ab_blockDur b1 = ab_blockDur b" by (auto simp: same_params_def)
  have "\<not> view_blocked (v(ExtractIP addr1 := None)) (ExtractIP addr2) t2"
    using free by (simp add: view_blocked_def)
  from good_password_accepted [OF b1(1) _ this ip2(1,2)] show ?thesis
    using good ip2(3) b1(2) by (simp add: PasswordCallback_auth(1))
qed

lemma demo_accepts:
  "fst (PasswordCallback (mem_env []) ''10.0.0.1:4000''
     (client_authString (NewAuthenticator ''secret'') (replicate 16 7)) 5 5 demo_server) = None"
  "fst (srv_IsBlocked (mem_env []) ''10.0.0.1'' 5 demo_server) = False"
  using good_password_accepted [OF demo_server_guards, of
      "client_authString (NewAuthenticator ''secret'') (replicate 16 7)" "''10.0.0.1:4000''" 5 5]
    honest_password [of "replicate 16 7" "''secret''"] srv_IsBlocked_correct(1) [OF demo_server_guards, of "''10.0.0.1''" 5]
  by (simp_all add: demo_ip time_ok_def demo_server_params view_blocked_def) (simp add: demo_server_def)

theorem password_replay_accepted_witness:
  "fst (PasswordCallback (mem_env []) ''10.0.0.1:4000'' (client_authString (NewAuthenticator ''secret'') (replicate 16 7))
     9 9 (snd (PasswordCallback (mem_env []) ''10.0.0.1:4000''
       (client_authString (NewAuthenticator ''secret'') (replicate 16 7)) 5 5 demo_server))) = None"
  using password_replay_accepted [OF demo_server_guards demo_accepts(1), of "''10.0.0.1:4000''" 9 9]
  by (simp add: demo_ip time_ok_def demo_server_params view_blocked_def)

lemma demo_session:
  "fst (handleConnection_entry (mem_env []) ''10.0.0.1:4000'' 5
     [(client_authString (NewAuthenticator ''secret'') (replicate 16 7), 5, 5)] True demo_server) = Established"
proof -
  let ?E = "mem_env []" and ?a = "''10.0.0.1:4000''" and ?p = "client_authString (NewAuthenticator ''secret'') (replicate 16 7)"
  obtain s1 where chk: "srv_IsBlocked ?E ''10.0.0.1'' 5 demo_server = (False, s1)"
    using demo_accepts(2) by (cases "srv_IsBlocked ?E ''10.0.0.1'' 5 demo_server") simp
  obtain b1 where b1: "guards ?E mem_ok s1 b1 Map.empty"
      "same_params (demo_blocker (demo_config\<lparr>bc_MaxFailures := 1\<rparr>)) b1" and "same_server demo_server s1"
    using srv_IsBlocked_correct(2,3) [OF demo_server_guards, of "''10.0.0.1''" 5] by (auto simp: chk)
  then have "good_password (srv_auth s1) ?p" "ab_blockDur b1 = 600 * second"
    using honest_password [of "replicate 16 7" "''secret''"] demo_server_params
    by (simp_all add: same_server_def same_params_def demo_server_def)
  then have "fst (PasswordCallback ?E ?a ?p 5 5 s1) = None"
    using good_password_accepted [OF b1(1), of ?p ?a 5 5] by (simp add: demo_ip time_ok_def view_blocked_def)
  then show ?thesis
    by (auto simp: handleConnection_entry_def demo_ip chk split: prod.splits option.splits)
qed

theorem session_needs_secret_witness:
  "\<exists>(pass, t1, t2) \<in> set [(client_authString (NewAuthenticator ''secret'') (replicate 16 7), 5, 5 :: int)].
     length pass = 96"
  using session_needs_secret [OF demo_session] by simp

section \<open>Starting the server\<close>

text \<open>A valid configuration gives a guarded server: with a loadable host key and a database that opens,
  \<open>NewServer\<close> succeeds; the authenticator holds the token's key, the semaphore is empty and of size
  \<open>MaxConnections\<close>, and the blocker knows what the database holds and works with the configured
  parameters (whose seconds fit in 63 bits of nanoseconds), unless it is disabled.\<close>

theorem NewServer_guarded:
  assumes valid: "server_Validate cfg = None" and enabled: "\<not> sc_AuthDisabled cfg"
    and key: "LoadOrGenerateSigner K gen (sc_HostKeyPath cfg) fs = (Inr signer, fs')"
    and db: "store_laws E ok" "opens E ok (bc_DBPath (blocker_config cfg)) d" "mkdir (bc_DBPath (blocker_config cfg))"
    and sem: "sem_laws S held cap"
    and fits: "sc_AuthBlockDuration cfg * second \<le> max_int64" "sc_AuthRecordTTL cfg * second \<le> max_int64"
  shows "\<exists>s b. NewServer E K S mkdir gen now cfg fs = (Inr s, fs') \<and> guards E ok s b (disk E d) \<and>
    srv_auth s = NewAuthenticator (sc_Token cfg) \<and> srv_signer s = signer \<and>
    held (srv_sem s) = 0 \<and> cap (srv_sem s) = sc_MaxConnections cfg \<and> 0 < sc_MaxConnections cfg \<and>
    ab_maxFailures b = sc_AuthMaxFailures cfg \<and> 0 < ab_maxFailures b \<and>
    ab_blockDur b = sc_AuthBlockDuration cfg * second \<and> 0 < ab_blockDur b \<and>
    ab_recordTTL b = sc_AuthRecordTTL cfg * second \<and>
    lru_capacity (ab_lru b) = sc_AuthLRUSize cfg"
proof -
  have pos: "0 < sc_MaxConnections cfg" "0 < sc_AuthMaxFailures cfg" "0 < sc_AuthBlockDuration cfg"
      "0 < sc_AuthLRUSize cfg" "0 < sc_AuthRecordTTL cfg"
    using valid enabled by (auto simp: server_Validate_def split: if_splits)
  then have secs: "seconds (sc_AuthBlockDuration cfg) = sc_AuthBlockDuration cfg * second"
      "seconds (sc_AuthRecordTTL cfg) = sc_AuthRecordTTL cfg * second"
    using fits by (simp_all add: seconds_id)
  obtain b where b: "NewAuthBlocker E mkdir (blocker_config cfg) = Inr b" "blocker_inv E ok b"
      "blocker_view E b = disk E d" "ab_maxFailures b = bc_MaxFailures (blocker_defaults (blocker_config cfg))"
      "ab_blockDur b = bc_BlockDuration (blocker_defaults (blocker_config cfg))"
      "ab_recordTTL b = bc_RecordTTL (blocker_defaults (blocker_config cfg))"
      "lru_capacity (ab_lru b) = bc_LRUSize (blocker_defaults (blocker_config cfg))"
    using NewAuthBlocker_opens [OF db(1,2), of mkdir] db(3) by blast
  show ?thesis
    using b pos secs sem_new [OF sem]
    by (simp add: NewServer_def valid key enabled Let_def guards_def blocker_defaults_def blocker_config_def)
qed

lemma demo_scfg_valid: "server_Validate demo_scfg = None"
  by (simp add: demo_scfg_simp server_Validate_def)

lemma demo_db: "bc_DBPath (blocker_config demo_scfg) = ''data/auth.db''"
  by (simp add: blocker_config_def demo_scfg_simp)

theorem NewServer_guarded_witness:
  "\<exists>s b. NewServer (mem_env []) demo_keys count_sem (\<lambda>_. True) (Some ''k1'') 1 demo_scfg demo_fs =
     (Inr s, demo_fs\<lparr>fs_data := [''host_key'' \<mapsto> ''RSA PRIVATE KEY:k1'']\<rparr>) \<and>
     srv_blocker s = Some b \<and> ab_blockDur b = 600 * second"
  using NewServer_guarded [OF demo_scfg_valid _ _ mem_laws mem_opens, of demo_keys "Some ''k1''" demo_fs "''k1''"
      _ "\<lambda>_. True" count_sem snd fst 1]
  by (simp add: demo_db demo_generate count_sem_laws guards_def) (auto simp: demo_scfg_simp demo_generate)

text \<open>A long block can become a short one: 18446744074 seconds pass the validation, but the product
  with \<open>time.Second\<close> wraps, and the server blocks for 0.29 seconds.\<close>

theorem block_duration_overflow:
  "server_Validate (demo_scfg\<lparr>sc_AuthBlockDuration := 18446744074\<rparr>) = None \<and>
   bc_BlockDuration (blocker_defaults (blocker_config (demo_scfg\<lparr>sc_AuthBlockDuration := 18446744074\<rparr>))) = 290448384"
  by (simp add: demo_scfg_simp server_Validate_def blocker_config_def blocker_defaults_def seconds_def int64_def)

section \<open>Admission of connections\<close>

text \<open>The accept loop of \<open>Start\<close> with the handlers it spawned, by connection number: \<open>ac_active\<close> are the
  running \<open>handleConnection\<close> goroutines, whose deferred calls close the connection and release the
  semaphore when they return.\<close>

record 's acceptor =
  ac_sem :: 's
  ac_active :: "nat list"
  ac_refused :: "nat list"
  ac_panic :: bool

datatype accept_event = AcceptError | Incoming nat | HandlerReturns nat

fun accept_step :: "'s semaphore \<Rightarrow> 's acceptor \<Rightarrow> accept_event \<Rightarrow> 's acceptor" where
  "accept_step S a AcceptError = a"
| "accept_step S a (Incoming c) =
     (case sem_TryAcquire S (ac_sem a) of
        None \<Rightarrow> a\<lparr>ac_refused := c # ac_refused a\<rparr>
      | Some s' \<Rightarrow> a\<lparr>ac_sem := s', ac_active := c # ac_active a\<rparr>)"
| "accept_step S a (HandlerReturns c) =
     (if c \<in> set (ac_active a) then
        (case sem_Release S (ac_sem a) of
           None \<Rightarrow> a\<lparr>ac_panic := True\<rparr>
         | Some s' \<Rightarrow> a\<lparr>ac_sem := s', ac_active := remove1 c (ac_active a)\<rparr>)
      else a)"

definition accept_start :: "'s semaphore \<Rightarrow> int \<Rightarrow> 's acceptor" where
  "accept_start S n = \<lparr>ac_sem = sem_NewWeighted S n, ac_active = [], ac_refused = [], ac_panic = False\<rparr>"

definition accept_inv :: "'s semaphore \<Rightarrow> ('s \<Rightarrow> int) \<Rightarrow> ('s \<Rightarrow> int) \<Rightarrow> int \<Rightarrow> 's acceptor \<Rightarrow> bool" where
  "accept_inv S held cap n a \<longleftrightarrow>
     sem_laws S held cap \<and> cap (ac_sem a) = n \<and> held (ac_sem a) = int (length (ac_active a)) \<and>
     int (length (ac_active a)) \<le> n \<and> \<not> ac_panic a"

lemma accept_step_inv:
  assumes "accept_inv S held cap n a"
  shows "accept_inv S held cap n (accept_step S a e)"
proof (cases e)
  case AcceptError
  then show ?thesis using assms by simp
next
  case (Incoming c)
  then show ?thesis
    using assms sem_try [of S held cap "ac_sem a"] by (auto simp: accept_inv_def split: option.splits)
next
  case (HandlerReturns c)
  show ?thesis
  proof (cases "c \<in> set (ac_active a)")
    case True
    then have "0 < held (ac_sem a)" "0 < length (ac_active a)"
      using assms by (auto simp: accept_inv_def)
    moreover from this obtain s' where "sem_Release S (ac_sem a) = Some s'" "held s' = held (ac_sem a) - 1"
        "cap s' = cap (ac_sem a)"
      using sem_release [of S held cap "ac_sem a"] assms by (auto simp: accept_inv_def)
    ultimately show ?thesis
      using assms True by (simp add: HandlerReturns accept_inv_def int_length_remove1)
  next
    case False
    then show ?thesis using assms by (simp add: HandlerReturns)
  qed
qed

interpretation acceptor: event_machine "accept_step S" "\<lambda>_. True" "accept_inv S held cap n"
  for S held cap n
  by unfold_locales (rule accept_step_inv)

text \<open>(C27) Concurrent connections are bounded: whatever connections arrive and whenever their handlers
  return, at most \<open>MaxConnections\<close> handlers run, the semaphore holds exactly one unit for each, its
  release never panics, and the next connection is refused if and only if the limit is reached.\<close>

theorem connections_bounded:
  fixes es :: "accept_event list"
  assumes laws: "sem_laws S held cap" and n: "0 < n"
  defines "a \<equiv> foldl (accept_step S) (accept_start S n) es"
  shows "int (length (ac_active a)) \<le> n \<and> held (ac_sem a) = int (length (ac_active a)) \<and> \<not> ac_panic a \<and>
    (ac_refused (accept_step S a (Incoming c)) = c # ac_refused a \<longleftrightarrow> int (length (ac_active a)) = n)"
proof -
  have "accept_inv S held cap n (accept_start S n)"
    using laws n sem_new [OF laws] by (simp add: accept_inv_def accept_start_def)
  then have "accept_inv S held cap n a"
    unfolding a_def by (rule acceptor.run_inv) (simp add: list_all_iff)
  then show ?thesis
    using sem_try_full [OF laws, of "ac_sem a"] by (auto simp: accept_inv_def split: option.splits)
qed

theorem connections_bounded_witness:
  "ac_refused (accept_step count_sem
     (foldl (accept_step count_sem) (accept_start count_sem 2) [Incoming 1, AcceptError, Incoming 2, HandlerReturns 1, Incoming 3])
     (Incoming 4)) = [4]"
  using connections_bounded [OF count_sem_laws, of 2 "[Incoming 1, AcceptError, Incoming 2, HandlerReturns 1, Incoming 3]" 4]
  by (simp add: accept_start_def count_sem_def)

end
