(* ===== verification/Wire_Messages.thy ===== *)
theory Wire_Messages
  imports Tbore_Base "HOL-Library.Countable"
begin

text \<open>
  The payloads of the control requests: the anonymous structs of \<open>src/pkg/client/client.go\<close> and
  \<open>src/pkg/server/server.go\<close>, their JSON trees as \<open>encoding/json\<close> writes and reads them (fields by tag
  name, exact or case-folded; unknown fields ignored; \<open>null\<close> leaves a field as it is; a value of the
  wrong type or out of range makes the call fail), and the binary messages of the SSH protocol.

  The JSON text of a tree and \<open>ssh.Marshal\<close>/\<open>ssh.Unmarshal\<close> (third-party) are the parameter \<open>W\<close>;
  \<open>wire_laws\<close> says that reading what was written gives it back.
\<close>

section \<open>JSON trees\<close>

datatype json =
    JNull
  | JBool bool
  | JNum string  \<comment> \<open>the literal\<close>
  | JStr string
  | JArr "json list"
  | JObj "(string \<times> json) list"

text \<open>Key comparison up to case: ASCII letters, and the two non-ASCII characters whose simple folding is
  an ASCII letter (the long s and the Kelvin sign, in UTF-8).\<close>

definition ascii_lower :: "char \<Rightarrow> char" where
  "ascii_lower c = (let n = of_char c :: nat in if 65 \<le> n \<and> n \<le> 90 then char_of (n + 32) else c)"

fun fold_name :: "string \<Rightarrow> string" where
  "fold_name [] = []"
| "fold_name [c] = [ascii_lower c]"
| "fold_name [c, d] =
     (if c = CHR 0xC5 \<and> d = CHR 0xBF then ''s'' else [ascii_lower c, ascii_lower d])"
| "fold_name (c # d # e # r) =
     (if c = CHR 0xC5 \<and> d = CHR 0xBF then CHR ''s'' # fold_name (e # r)
      else if c = CHR 0xE2 \<and> d = CHR 0x84 \<and> e = CHR 0xAA then CHR ''k'' # fold_name r
      else ascii_lower c # fold_name (d # e # r))"

text \<open>A struct's fields: the tag name and what a value does to the struct (\<open>None\<close>: an error).\<close>

type_synonym 'a field = "string \<times> (json \<Rightarrow> 'a \<Rightarrow> 'a option)"

definition find_field :: "'a field list \<Rightarrow> string \<Rightarrow> (json \<Rightarrow> 'a \<Rightarrow> 'a option) option" where
  "find_field fs k =
     (case map_of fs k of
        Some f \<Rightarrow> Some f
      | None \<Rightarrow> map_option snd (find (\<lambda>(n, f). fold_name n = fold_name k) fs))"

fun decode_members :: "'a field list \<Rightarrow> (string \<times> json) list \<Rightarrow> 'a \<Rightarrow> 'a option" where
  "decode_members fs [] a = Some a"
| "decode_members fs ((k, v) # kvs) a =
     (case find_field fs k of
        None \<Rightarrow> decode_members fs kvs a
      | Some f \<Rightarrow> (case f v a of None \<Rightarrow> None | Some a' \<Rightarrow> decode_members fs kvs a'))"

fun decode_struct :: "'a field list \<Rightarrow> json \<Rightarrow> 'a \<Rightarrow> 'a option" where
  "decode_struct fs (JObj kvs) a = decode_members fs kvs a"
| "decode_struct fs JNull a = Some a"
| "decode_struct fs _ a = None"

text \<open>\<open>strconv.ParseInt(s, 10, 64)\<close> and \<open>ParseUint(s, 10, 32)\<close> on a JSON number's literal.\<close>

definition parse_nat :: "string \<Rightarrow> nat option" where
  "parse_nat s = (if s \<noteq> [] \<and> list_all is_digit s then Some (base_value 10 (map digit_val s)) else None)"

definition parse_int64 :: "string \<Rightarrow> int option" where
  "parse_int64 s =
     (let v = (case s of
                 c # r \<Rightarrow> if c = CHR ''-'' then map_option (\<lambda>n. - int n) (parse_nat r) else map_option int (parse_nat s)
               | [] \<Rightarrow> None)
      in case v of
           None \<Rightarrow> None
         | Some i \<Rightarrow> if - 9223372036854775808 \<le> i \<and> i \<le> max_int64 then Some i else None)"

definition parse_uint32 :: "string \<Rightarrow> u32 option" where
  "parse_uint32 s =
     (case parse_nat s of None \<Rightarrow> None | Some n \<Rightarrow> if n < 2 ^ 32 then Some (of_nat n) else None)"

fun set_string :: "(string \<Rightarrow> 'a \<Rightarrow> 'a) \<Rightarrow> json \<Rightarrow> 'a \<Rightarrow> 'a option" where
  "set_string upd (JStr s) a = Some (upd s a)"
| "set_string upd JNull a = Some a"
| "set_string upd _ a = None"

fun set_int :: "(int \<Rightarrow> 'a \<Rightarrow> 'a) \<Rightarrow> json \<Rightarrow> 'a \<Rightarrow> 'a option" where
  "set_int upd (JNum s) a = map_option (\<lambda>i. upd i a) (parse_int64 s)"
| "set_int upd JNull a = Some a"
| "set_int upd _ a = None"

fun set_uint32 :: "(u32 \<Rightarrow> 'a \<Rightarrow> 'a) \<Rightarrow> json \<Rightarrow> 'a \<Rightarrow> 'a option" where
  "set_uint32 upd (JNum s) a = map_option (\<lambda>w. upd w a) (parse_uint32 s)"
| "set_uint32 upd JNull a = Some a"
| "set_uint32 upd _ a = None"

section \<open>The messages\<close>

record ClientInfo =
  ci_Project :: string
  ci_Region :: string

record TunnelInfoMsg =
  tm_Port :: u32
  tm_Name :: string
  tm_LocalIP :: string
  tm_LocalPort :: int
  tm_Timeout :: int

record HealthReport =
  hr_Port :: u32
  hr_Status :: int

definition zero_ClientInfo :: ClientInfo where
  "zero_ClientInfo = \<lparr>ci_Project = '''', ci_Region = ''''\<rparr>"

definition decode_ClientInfo :: "json \<Rightarrow> ClientInfo option" where
  "decode_ClientInfo j = decode_struct
     [(''project'', set_string (\<lambda>s a. a\<lparr>ci_Project := s\<rparr>)),
      (''region'', set_string (\<lambda>s a. a\<lparr>ci_Region := s\<rparr>))] j zero_ClientInfo"

definition decode_TunnelInfo :: "json \<Rightarrow> TunnelInfoMsg option" where
  "decode_TunnelInfo j = decode_struct
     [(''port'', set_uint32 (\<lambda>p a. a\<lparr>tm_Port := p\<rparr>)),
      (''name'', set_string (\<lambda>s a. a\<lparr>tm_Name := s\<rparr>)),
      (''local_ip'', set_string (\<lambda>s a. a\<lparr>tm_LocalIP := s\<rparr>)),
      (''local_port'', set_int (\<lambda>i a. a\<lparr>tm_LocalPort := i\<rparr>)),
      (''timeout'', set_int (\<lambda>i a. a\<lparr>tm_Timeout := i\<rparr>))] j
     \<lparr>tm_Port = 0, tm_Name = '''', tm_LocalIP = '''', tm_LocalPort = 0, tm_Timeout = 0\<rparr>"

definition decode_HealthReport :: "json \<Rightarrow> HealthReport option" where
  "decode_HealthReport j = decode_struct
     [(''port'', set_uint32 (\<lambda>p a. a\<lparr>hr_Port := p\<rparr>)),
      (''status'', set_int (\<lambda>i a. a\<lparr>hr_Status := i\<rparr>))] j \<lparr>hr_Port = 0, hr_Status = 0\<rparr>"

definition encode_ClientInfo :: "ClientInfo \<Rightarrow> json" where
  "encode_ClientInfo m = JObj [(''project'', JStr (ci_Project m)), (''region'', JStr (ci_Region m))]"

definition encode_TunnelInfo :: "TunnelInfoMsg \<Rightarrow> json" where
  "encode_TunnelInfo m = JObj
     [(''port'', JNum (dec_of_nat (unat (tm_Port m)))), (''name'', JStr (tm_Name m)),
      (''local_ip'', JStr (tm_LocalIP m)), (''local_port'', JNum (dec_of_int (tm_LocalPort m))),
      (''timeout'', JNum (dec_of_int (tm_Timeout m)))]"

definition encode_HealthReport :: "HealthReport \<Rightarrow> json" where
  "encode_HealthReport m =
     JObj [(''port'', JNum (dec_of_nat (unat (hr_Port m)))), (''status'', JNum (dec_of_int (hr_Status m)))]"

text \<open>The server's answer to a health check: one object per tunnel; without any, Go marshals the nil
  slice as \<open>null\<close>.\<close>

definition encode_HealthCheck :: "(u32 \<times> int) list \<Rightarrow> json" where
  "encode_HealthCheck hs =
     (if hs = [] then JNull
      else JArr (map (\<lambda>(p, st). JObj [(''port'', JNum (dec_of_nat (unat p))), (''status'', JNum (dec_of_int st))]) hs))"

section \<open>Numbers\<close>

lemma parse_nat_dec: "parse_nat (dec_of_nat n) = Some n"
proof -
  have "takeWhile is_digit (dec_of_nat n) = dec_of_nat n"
    by (rule takeWhile_eq_all_conv [THEN iffD2]) (simp add: dec_of_nat_digits)
  with scan_dec_of_nat [of n] show ?thesis
    by (auto simp: parse_nat_def scan_dec_def list_all_iff dec_of_nat_digits split: list.splits)
qed

lemma dec_of_nat_not_minus: "dec_of_nat n = c # r \<Longrightarrow> c \<noteq> CHR ''-''"
  using dec_of_nat_digits [of c n] by (auto simp: is_digit_def)

lemma parse_int64_dec:
  assumes "- 9223372036854775808 \<le> i" "i \<le> max_int64"
  shows "parse_int64 (dec_of_int i) = Some i"
proof (cases "i < 0")
  case True
  then show ?thesis
    using assms by (simp add: dec_of_int_def parse_int64_def parse_nat_dec)
next
  case False
  obtain c r where cr: "dec_of_nat (nat i) = c # r" by (cases "dec_of_nat (nat i)") simp_all
  then show ?thesis
    using False assms dec_of_nat_not_minus [OF cr] parse_nat_dec [of "nat i"]
    by (simp add: dec_of_int_def parse_int64_def)
qed

lemma parse_uint32_dec: "parse_uint32 (dec_of_nat (unat (w :: u32))) = Some w"
  using unat_bound [of w] by (simp add: parse_uint32_def parse_nat_dec)

section \<open>The binary messages and the texts\<close>

record wire_env =
  w_json :: "string \<Rightarrow> json option"     \<comment> \<open>the tree of a JSON text\<close>
  w_text :: "json \<Rightarrow> string"
  w_forward :: "string \<Rightarrow> string \<times> u32"  \<comment> \<open>what \<open>ssh.Unmarshal\<close> leaves in \<open>{Addr, Port}\<close>, its error ignored\<close>
  w_marshal_forward :: "string \<times> u32 \<Rightarrow> string"
  w_channel :: "string \<Rightarrow> string \<times> u32 \<times> string \<times> u32"
  w_marshal_channel :: "string \<times> u32 \<times> string \<times> u32 \<Rightarrow> string"

text \<open>JSON texts carry ASCII strings unchanged (other strings only if they are valid UTF-8).\<close>

definition ascii :: "string \<Rightarrow> bool" where
  "ascii s \<longleftrightarrow> list_all (\<lambda>c. (of_char c :: nat) < 128) s"

fun plain_json :: "json \<Rightarrow> bool" where
  "plain_json JNull \<longleftrightarrow> True"
| "plain_json (JBool b) \<longleftrightarrow> True"
| "plain_json (JNum s) \<longleftrightarrow> parse_int64 s \<noteq> None"
| "plain_json (JStr s) \<longleftrightarrow> ascii s"
| "plain_json (JArr js) \<longleftrightarrow> list_all plain_json js"
| "plain_json (JObj kvs) \<longleftrightarrow> list_all (\<lambda>(k, j). ascii k \<and> plain_json j) kvs"

definition wire_laws :: "wire_env \<Rightarrow> bool" where
  "wire_laws W \<longleftrightarrow>
     (\<forall>j. plain_json j \<longrightarrow> w_json W (w_text W j) = Some j) \<and>
     (\<forall>a p. length a < 2 ^ 32 \<longrightarrow> w_forward W (w_marshal_forward W (a, p)) = (a, p)) \<and>
     (\<forall>a p oa op. length a < 2 ^ 32 \<and> length oa < 2 ^ 32 \<longrightarrow>
        w_channel W (w_marshal_channel W (a, p, oa, op)) = (a, p, oa, op))"

text \<open>One environment with this behaviour: trees and messages are numbered, and the text is the number.\<close>

instance json :: countable
  by countable_datatype

definition demo_wire :: wire_env where
  "demo_wire =
     \<lparr>w_json = (\<lambda>s. map_option from_nat (scan_dec s)),
      w_text = (\<lambda>j. dec_of_nat (to_nat j)),
      w_forward = (\<lambda>s. case from_nat (the (scan_dec s)) of (a :: string, n :: nat) \<Rightarrow> (a, of_nat n)),
      w_marshal_forward = (\<lambda>(a, p). dec_of_nat (to_nat (a, unat p))),
      w_channel = (\<lambda>s. case from_nat (the (scan_dec s)) of
        (a :: string, n :: nat, b :: string, m :: nat) \<Rightarrow> (a, of_nat n, b, of_nat m)),
      w_marshal_channel = (\<lambda>(a, p, b, q). dec_of_nat (to_nat (a, unat p, b, unat q)))\<rparr>"

lemma demo_wire_laws: "wire_laws demo_wire"
  by (simp add: wire_laws_def demo_wire_def scan_dec_of_nat)

text \<open>(C35) What the client says is what the server reads: decoding the JSON tree of a client-info,
  tunnel-info or health-report message gives the message back (its integers are 64-bit).\<close>

theorem messages_round_trip:
  "decode_ClientInfo (encode_ClientInfo c) = Some c \<and>
   decode_TunnelInfo (encode_TunnelInfo (t\<lparr>tm_LocalPort := int64 i, tm_Timeout := int64 j\<rparr>)) =
     Some (t\<lparr>tm_LocalPort := int64 i, tm_Timeout := int64 j\<rparr>) \<and>
   decode_HealthReport (encode_HealthReport (h\<lparr>hr_Status := int64 i\<rparr>)) = Some (h\<lparr>hr_Status := int64 i\<rparr>)"
  using int64_range [of i] int64_range [of j]
  by (cases c; cases t; cases h)
     (simp add: decode_ClientInfo_def encode_ClientInfo_def decode_TunnelInfo_def encode_TunnelInfo_def
       decode_HealthReport_def encode_HealthReport_def find_field_def zero_ClientInfo_def
       parse_uint32_dec parse_int64_dec)

end
