(* ===== verification/Tunnel_Session.thy ===== *)
theory Tunnel_Session
  imports Config Net_Address Wire_Messages Semaphore "HOL-Library.AList"
begin

text \<open>
  A client's session on the server: \<open>ConnectionInfo\<close>, \<open>TunnelInfo\<close> and the handlers of the control
  requests in \<open>src/pkg/server/server.go\<close>, from the end of the handshake to the cleanup.

  Tunnels live in a heap (\<open>ss_tunnels\<close>): the map of a connection holds addresses, as the code's holds
  pointers that other goroutines keep. A Go map is an association list with distinct keys; where the
  code ranges over one, \<open>order\<close> is the order it happens to take. Listeners are numbered;
  \<open>ss_open\<close> are the ones not closed, with their ports. What \<open>net.Listen\<close> returns is an argument: the
  text of the listener's address, or \<open>None\<close> for an error.
\<close>

section \<open>Tunnel states\<close>

text \<open>\<open>TunnelState\<close> is an \<open>int\<close>; any value can be stored in one.\<close>

abbreviation TunnelStateActive :: int where "TunnelStateActive \<equiv> 0"
abbreviation TunnelStateIdle :: int where "TunnelStateIdle \<equiv> 1"
abbreviation TunnelStateError :: int where "TunnelStateError \<equiv> 2"

definition TunnelState_String :: "int \<Rightarrow> string" where
  "TunnelState_String s =
     (if s = TunnelStateActive then ''active''
      else if s = TunnelStateIdle then ''idle''
      else if s = TunnelStateError then ''error''
      else ''unknown'')"

section \<open>The state of a session\<close>

record 's TunnelInfo =
  ti_RemotePort :: u32
  ti_LocalAddr :: string
  ti_State :: int
  ti_ActiveConns :: "32 word"      \<comment> \<open>\<open>int32\<close>\<close>
  ti_Name :: string
  ti_Listener :: "nat option"
  ti_ConnTimeout :: duration
  ti_connSem :: 's

record ConnectionInfo =
  co_ID :: string
  co_RemoteAddr :: string
  co_ConnectTime :: gotime
  co_Tunnels :: "(u32 \<times> nat) list"
  co_ClientInfo :: ClientInfo

text \<open>The goroutines of a session that matter here: an accept loop per listener, and a task per accepted
  user connection. A task has not looked its tunnel up yet, relays for the tunnel it found, or is
  finished.\<close>

datatype task_phase = Spawned | Relaying "nat option" | Finished

record task =
  tk_port :: u32
  tk_phase :: task_phase

record 's session =
  ss_conn :: ConnectionInfo
  ss_tunnels :: "nat \<Rightarrow> 's TunnelInfo"
  ss_nextTunnel :: nat
  ss_open :: "(nat \<times> u32) list"
  ss_nextListener :: nat
  ss_loops :: "(nat \<times> u32) list"   \<comment> \<open>accept loops that run: listener and \<open>actualPort\<close>\<close>
  ss_tasks :: "task list"
  ss_panic :: bool

definition close_listener :: "nat option \<Rightarrow> 's session \<Rightarrow> 's session" where
  "close_listener l s =
     (case l of None \<Rightarrow> s | Some i \<Rightarrow> s\<lparr>ss_open := filter (\<lambda>(j, p). j \<noteq> i) (ss_open s)\<rparr>)"

definition update_tunnel :: "nat \<Rightarrow> ('s TunnelInfo \<Rightarrow> 's TunnelInfo) \<Rightarrow> 's session \<Rightarrow> 's session" where
  "update_tunnel a f s = s\<lparr>ss_tunnels := (ss_tunnels s)(a := f (ss_tunnels s a))\<rparr>"

definition lookup_tunnel :: "u32 \<Rightarrow> 's session \<Rightarrow> nat option" where
  "lookup_tunnel p s = map_of (co_Tunnels (ss_conn s)) p"

section \<open>Session identifiers\<close>

text \<open>\<open>nanos\<close> is \<open>time.Now().UnixNano()\<close>, not negative since 1970.\<close>

definition generateSessionID :: "nat \<Rightarrow> string" where
  "generateSessionID nanos = ''sess_'' @ hex_of_nat nanos"

definition new_session :: "string \<Rightarrow> string \<Rightarrow> gotime \<Rightarrow> ('s TunnelInfo) \<Rightarrow> 's session" where
  "new_session sid remoteAddr now blank =
     \<lparr>ss_conn = \<lparr>co_ID = sid, co_RemoteAddr = remoteAddr, co_ConnectTime = now, co_Tunnels = [],
                 co_ClientInfo = zero_ClientInfo\<rparr>,
      ss_tunnels = (\<lambda>_. blank), ss_nextTunnel = 0, ss_open = [], ss_nextListener = 0,
      ss_loops = [], ss_tasks = [], ss_panic = False\<rparr>"

section \<open>The request handlers\<close>

datatype reply = Reply bool string

record request =
  rq_Type :: string
  rq_Payload :: string

definition put_uint32 :: "u32 \<Rightarrow> string" where
  "put_uint32 w = map (\<lambda>i. char_of (unat (drop_bit (8 * i) w) mod 256)) [3, 2, 1, 0]"

definition handleClientInfoRequest ::
  "wire_env \<Rightarrow> string \<Rightarrow> 's session \<Rightarrow> reply \<times> 's session" where
  "handleClientInfoRequest W payload s =
     (case Option.bind (w_json W payload) decode_ClientInfo of
        None \<Rightarrow> (Reply False '''', s)
      | Some info \<Rightarrow> (Reply True '''', s\<lparr>ss_conn := (ss_conn s)\<lparr>co_ClientInfo := info\<rparr>\<rparr>))"

definition handleTunnelInfoRequest ::
  "wire_env \<Rightarrow> string \<Rightarrow> 's session \<Rightarrow> reply \<times> 's session" where
  "handleTunnelInfoRequest W payload s =
     (case Option.bind (w_json W payload) decode_TunnelInfo of
        None \<Rightarrow> (Reply False '''', s)
      | Some info \<Rightarrow>
          (Reply True '''',
           case lookup_tunnel (tm_Port info) s of
             None \<Rightarrow> s
           | Some a \<Rightarrow>
               update_tunnel a (\<lambda>t. t\<lparr>ti_Name := tm_Name info,
                 ti_LocalAddr := tm_LocalIP info @ '':'' @ dec_of_int (tm_LocalPort info),
                 ti_ConnTimeout := seconds (tm_Timeout info)\<rparr>) s))"

definition handleHealthCheckRequest ::
  "wire_env \<Rightarrow> ((u32 \<times> nat) list \<Rightarrow> (u32 \<times> nat) list) \<Rightarrow> 's session \<Rightarrow> reply \<times> 's session" where
  "handleHealthCheckRequest W order s =
     (let healthInfo = map (\<lambda>(port, a). (port, ti_State (ss_tunnels s a))) (order (co_Tunnels (ss_conn s)))
      in (Reply True (w_text W (encode_HealthCheck healthInfo)), s))"

definition handleHealthReportRequest ::
  "wire_env \<Rightarrow> string \<Rightarrow> 's session \<Rightarrow> reply \<times> 's session" where
  "handleHealthReportRequest W payload s =
     (case Option.bind (w_json W payload) decode_HealthReport of
        None \<Rightarrow> (Reply False '''', s)
      | Some info \<Rightarrow>
          (Reply True '''',
           case lookup_tunnel (hr_Port info) s of
             None \<Rightarrow> s
           | Some a \<Rightarrow>
               (let newState = hr_Status info
                in if ti_State (ss_tunnels s a) \<noteq> newState
                   then update_tunnel a (\<lambda>t. t\<lparr>ti_State := newState\<rparr>) s else s)))"

definition handleCancelForwardRequest ::
  "wire_env \<Rightarrow> string \<Rightarrow> 's session \<Rightarrow> reply \<times> 's session" where
  "handleCancelForwardRequest W payload s =
     (case w_forward W payload of
        (addr, port) \<Rightarrow>
          (case lookup_tunnel port s of
             None \<Rightarrow> (Reply False '''', s)
           | Some a \<Rightarrow>
               (let s1 = close_listener (ti_Listener (ss_tunnels s a)) s
                in (Reply True '''',
                    s1\<lparr>ss_conn := (ss_conn s1)\<lparr>co_Tunnels := AList.delete port (co_Tunnels (ss_conn s1))\<rparr>\<rparr>))))"

definition new_TunnelInfo :: "ServerConfig \<Rightarrow> 's semaphore \<Rightarrow> u32 \<Rightarrow> string \<Rightarrow> nat \<Rightarrow> 's TunnelInfo" where
  "new_TunnelInfo cfg S actualPort addr ln =
     \<lparr>ti_RemotePort = actualPort, ti_LocalAddr = addr, ti_State = TunnelStateIdle, ti_ActiveConns = 0,
      ti_Name = '''', ti_Listener = Some ln, ti_ConnTimeout = 0,
      ti_connSem = sem_NewWeighted S (sc_MaxConnsPerTunnel cfg)\<rparr>"

definition handleForwardRequest ::
  "ServerConfig \<Rightarrow> 's semaphore \<Rightarrow> wire_env \<Rightarrow> string option \<Rightarrow> string \<Rightarrow> 's session \<Rightarrow> reply \<times> 's session" where
  "handleForwardRequest cfg S W listen payload s =
     (case w_forward W payload of
        (addr, port) \<Rightarrow>
          if port \<noteq> 0 \<and> \<not> IsValidPort cfg port then (Reply False '''', s)
          else if int (length (co_Tunnels (ss_conn s))) \<ge> sc_MaxTunnels cfg then (Reply False '''', s)
          else
            (case listen of
               None \<Rightarrow> (Reply False '''', s)
             | Some laddr \<Rightarrow>
                 (let actualPort = port_of_addr laddr;
                      ln = ss_nextListener s;
                      a = ss_nextTunnel s;
                      t = new_TunnelInfo cfg S actualPort addr ln
                  in (Reply True (put_uint32 actualPort),
                      s\<lparr>ss_tunnels := (ss_tunnels s)(a := t), ss_nextTunnel := Suc a,
                        ss_open := (ln, actualPort) # ss_open s, ss_nextListener := Suc ln,
                        ss_conn := (ss_conn s)\<lparr>co_Tunnels :=
                          AList.update actualPort a (co_Tunnels (ss_conn s))\<rparr>,
                        ss_loops := (ln, actualPort) # ss_loops s\<rparr>))))"

text \<open>The dispatch on the request's type. The environment's part of a request: what \<open>net.Listen\<close> would
  return and the order a range over the map would take.\<close>

record request_env =
  re_listen :: "string option"
  re_order :: "(u32 \<times> nat) list \<Rightarrow> (u32 \<times> nat) list"

definition handle_request ::
  "ServerConfig \<Rightarrow> 's semaphore \<Rightarrow> wire_env \<Rightarrow> request_env \<Rightarrow> request \<Rightarrow> 's session \<Rightarrow> reply \<times> 's session" where
  "handle_request cfg S W V req s =
     (if rq_Type req = ''tcpip-forward'' then handleForwardRequest cfg S W (re_listen V) (rq_Payload req) s
      else if rq_Type req = ''cancel-tcpip-forward'' then handleCancelForwardRequest W (rq_Payload req) s
      else if rq_Type req = ''tbore-client-info'' then handleClientInfoRequest W (rq_Payload req) s
      else if rq_Type req = ''tbore-tunnel-info'' then handleTunnelInfoRequest W (rq_Payload req) s
      else if rq_Type req = ''tbore-health-check'' then handleHealthCheckRequest W (re_order V) s
      else if rq_Type req = ''tbore-health-report'' then handleHealthReportRequest W (rq_Payload req) s
      else if rq_Type req = ''keepalive@openssh.com'' then (Reply True '''', s)
      else (Reply False '''', s))"

text \<open>What \<open>handleConnection\<close> does after \<open>sshConn.Wait()\<close> returned: it closes the tunnels' listeners (and
  forgets the session; see below).\<close>

definition session_cleanup :: "((u32 \<times> nat) list \<Rightarrow> (u32 \<times> nat) list) \<Rightarrow> 's session \<Rightarrow> 's session" where
  "session_cleanup order s =
     foldl (\<lambda>s (port, a). close_listener (ti_Listener (ss_tunnels s a)) s) s (order (co_Tunnels (ss_conn s)))"

section \<open>User connections\<close>

text \<open>One turn of \<open>acceptClientConnections\<close> of the loop on listener \<open>ln\<close>: a user connection was accepted.
  (The semaphore is never nil: \<open>handleForwardRequest\<close> sets it.)\<close>

definition acceptClientConnections :: "'s semaphore \<Rightarrow> nat \<Rightarrow> 's session \<Rightarrow> 's session" where
  "acceptClientConnections S ln s =
     (case map_of (ss_loops s) ln of
        None \<Rightarrow> s
      | Some actualPort \<Rightarrow>
          (case lookup_tunnel actualPort s of
             None \<Rightarrow> s\<lparr>ss_loops := AList.delete ln (ss_loops s)\<rparr>
           | Some a \<Rightarrow>
               (case sem_TryAcquire S (ti_connSem (ss_tunnels s a)) of
                  None \<Rightarrow> s
                | Some sem \<Rightarrow>
                    (let s1 = update_tunnel a (\<lambda>t. t\<lparr>ti_connSem := sem, ti_State := TunnelStateActive,
                                ti_ActiveConns := ti_ActiveConns t + 1\<rparr>) s
                     in s1\<lparr>ss_tasks := ss_tasks s1 @ [\<lparr>tk_port = actualPort, tk_phase = Spawned\<rparr>]\<rparr>))))"

text \<open>\<open>Accept\<close> failed: the loop ends.\<close>

definition accept_failed :: "nat \<Rightarrow> 's session \<Rightarrow> 's session" where
  "accept_failed ln s = s\<lparr>ss_loops := AList.delete ln (ss_loops s)\<rparr>"

text \<open>\<open>handleClientConnection\<close>, in steps: it looks its tunnel up and ends, or opens the channel to the
  client; a channel that cannot be opened marks the tunnel; it ends when both copies have ended. Its
  deferred function releases the semaphore of the tunnel it found and counts down.\<close>

definition end_task :: "'s semaphore \<Rightarrow> nat \<Rightarrow> nat option \<Rightarrow> 's session \<Rightarrow> 's session" where
  "end_task S i tunnel s =
     (let s1 = s\<lparr>ss_tasks := (ss_tasks s)[i := (ss_tasks s ! i)\<lparr>tk_phase := Finished\<rparr>]\<rparr>
      in case tunnel of
           None \<Rightarrow> s1
         | Some a \<Rightarrow>
             (case sem_Release S (ti_connSem (ss_tunnels s1 a)) of
                None \<Rightarrow> s1\<lparr>ss_panic := True\<rparr>
              | Some sem \<Rightarrow>
                  update_tunnel a (\<lambda>t. t\<lparr>ti_connSem := sem, ti_ActiveConns := ti_ActiveConns t - 1\<rparr>) s1))"

definition start_task :: "'s semaphore \<Rightarrow> nat \<Rightarrow> 's session \<Rightarrow> 's session" where
  "start_task S i s =
     (if i < length (ss_tasks s) \<and> tk_phase (ss_tasks s ! i) = Spawned then
        (let tunnel = lookup_tunnel (tk_port (ss_tasks s ! i)) s
         in case tunnel of
              None \<Rightarrow> end_task S i None s
            | Some a \<Rightarrow>
                if ti_LocalAddr (ss_tunnels s a) = '''' then end_task S i tunnel s
                else s\<lparr>ss_tasks := (ss_tasks s)[i := (ss_tasks s ! i)\<lparr>tk_phase := Relaying tunnel\<rparr>]\<rparr>)
      else s)"

text \<open>The payload of the \<open>forwarded-tcpip\<close> channel: the client dials its first component.\<close>

definition channel_payload :: "wire_env \<Rightarrow> string \<Rightarrow> u32 \<Rightarrow> string \<Rightarrow> string" where
  "channel_payload W localAddr actualPort userAddr =
     (let (host, pStr) = (case SplitHostPort userAddr of Inl _ \<Rightarrow> ('''', '''') | Inr hp \<Rightarrow> hp);
          p = (case scan_dec pStr of None \<Rightarrow> 0 | Some n \<Rightarrow> if n < 2 ^ 32 then of_nat n else 0)
      in w_marshal_channel W (localAddr, actualPort, host, p))"

definition task_ends :: "'s semaphore \<Rightarrow> bool \<Rightarrow> nat \<Rightarrow> 's session \<Rightarrow> 's session" where
  "task_ends S opened i s =
     (if i < length (ss_tasks s) then
        (case tk_phase (ss_tasks s ! i) of
           Relaying (Some a) \<Rightarrow>
             end_task S i (Some a)
               (if opened then s else update_tunnel a (\<lambda>t. t\<lparr>ti_State := TunnelStateError\<rparr>) s)
         | _ \<Rightarrow> s)
      else s)"

datatype session_event =
    Request request request_env
  | UserConnects nat          \<comment> \<open>\<open>Accept\<close> on a listener returns a connection\<close>
  | AcceptFails nat
  | TaskLooksUp nat
  | OpenChannelFails nat
  | TaskEnds nat

fun session_step ::
  "ServerConfig \<Rightarrow> 's semaphore \<Rightarrow> wire_env \<Rightarrow> 's session \<Rightarrow> session_event \<Rightarrow> 's session" where
  "session_step cfg S W s (Request req V) = snd (handle_request cfg S W V req s)"
| "session_step cfg S W s (UserConnects ln) = acceptClientConnections S ln s"
| "session_step cfg S W s (AcceptFails ln) = accept_failed ln s"
| "session_step cfg S W s (TaskLooksUp i) = start_task S i s"
| "session_step cfg S W s (OpenChannelFails i) = task_ends S False i s"
| "session_step cfg S W s (TaskEnds i) = task_ends S True i s"

section \<open>Resources\<close>

text \<open>What the operating system promises of \<open>net.Listen\<close>: the new listener's address is a host and a
  port that no open listener of the session has, and that is the requested one if one was requested.\<close>

definition listen_ok :: "wire_env \<Rightarrow> 's session \<Rightarrow> request \<Rightarrow> request_env \<Rightarrow> bool" where
  "listen_ok W s req V \<longleftrightarrow>
     (case re_listen V of
        None \<Rightarrow> True
      | Some laddr \<Rightarrow>
          port_of_addr laddr \<noteq> 0 \<and> port_of_addr laddr \<notin> snd ` set (ss_open s) \<and>
          (snd (w_forward W (rq_Payload req)) \<noteq> 0 \<longrightarrow>
             port_of_addr laddr = snd (w_forward W (rq_Payload req))))"

fun event_possible :: "wire_env \<Rightarrow> 's session \<Rightarrow> session_event \<Rightarrow> bool" where
  "event_possible W s (Request req V) \<longleftrightarrow> listen_ok W s req V"
| "event_possible W s _ \<longleftrightarrow> True"

definition session_trans ::
  "ServerConfig \<Rightarrow> 's semaphore \<Rightarrow> wire_env \<Rightarrow> 's session \<Rightarrow> 's session \<Rightarrow> bool" where
  "session_trans cfg S W s s' \<longleftrightarrow> (\<exists>e. event_possible W s e \<and> s' = session_step cfg S W s e)"

text \<open>The open listeners are exactly those of the tunnels, one each.\<close>

definition session_inv :: "ServerConfig \<Rightarrow> 's session \<Rightarrow> bool" where
  "session_inv cfg s \<longleftrightarrow>
     distinct (map fst (co_Tunnels (ss_conn s))) \<and>
     int (length (co_Tunnels (ss_conn s))) \<le> max 0 (sc_MaxTunnels cfg) \<and>
     distinct (map fst (ss_open s)) \<and> distinct (map snd (ss_open s)) \<and>
     snd ` set (ss_open s) = fst ` set (co_Tunnels (ss_conn s)) \<and>
     (\<forall>(l, p) \<in> set (ss_open s). l < ss_nextListener s) \<and>
     (\<forall>(p, a) \<in> set (co_Tunnels (ss_conn s)). a < ss_nextTunnel s \<and> ti_RemotePort (ss_tunnels s a) = p \<and>
        (\<exists>l. ti_Listener (ss_tunnels s a) = Some l \<and> (l, p) \<in> set (ss_open s)))"

text \<open>Most steps change neither listeners nor the map, and no tunnel's port or listener.\<close>

definition same_resources :: "'s session \<Rightarrow> 's session \<Rightarrow> bool" where
  "same_resources s s' \<longleftrightarrow>
     co_Tunnels (ss_conn s') = co_Tunnels (ss_conn s) \<and> ss_open s' = ss_open s \<and>
     ss_nextTunnel s' = ss_nextTunnel s \<and> ss_nextListener s' = ss_nextListener s \<and>
     (\<forall>a. ti_RemotePort (ss_tunnels s' a) = ti_RemotePort (ss_tunnels s a) \<and>
          ti_Listener (ss_tunnels s' a) = ti_Listener (ss_tunnels s a))"

lemma session_inv_same: "session_inv cfg s \<Longrightarrow> same_resources s s' \<Longrightarrow> session_inv cfg s'"
  by (simp add: session_inv_def same_resources_def)

lemma same_resources_handlers [session_simps]:
  "same_resources s (snd (handleClientInfoRequest W payload s))"
  "same_resources s (snd (handleTunnelInfoRequest W payload s))"
  "same_resources s (snd (handleHealthCheckRequest W order s))"
  "same_resources s (snd (handleHealthReportRequest W payload s))"
  by (auto simp: handleClientInfoRequest_def handleTunnelInfoRequest_def handleHealthCheckRequest_def
      handleHealthReportRequest_def same_resources_def update_tunnel_def Let_def split: option.splits)

lemma same_resources_tasks [session_simps]:
  "same_resources s (acceptClientConnections S ln s)"
  "same_resources s (accept_failed ln s)"
  "same_resources s (end_task S i tunnel s)"
  "same_resources s (update_tunnel a (\<lambda>t. t\<lparr>ti_State := st\<rparr>) s)"
  by (auto simp: acceptClientConnections_def accept_failed_def end_task_def same_resources_def
      update_tunnel_def Let_def split: option.splits)

lemma same_resources_trans: "same_resources a b \<Longrightarrow> same_resources b c \<Longrightarrow> same_resources a c"
  by (simp add: same_resources_def)

lemma same_resources_refl [simp]: "same_resources s s"
  by (simp add: same_resources_def)

lemma same_resources_start [session_simps]:
  "same_resources s (start_task S i s)"
  using same_resources_tasks(3) [of s S i]
  by (auto simp: start_task_def Let_def split: option.splits) (simp add: same_resources_def)

lemma same_resources_ends [session_simps]:
  "same_resources s (task_ends S opened i s)"
proof -
  have "same_resources s (end_task S i (Some a) (update_tunnel a (\<lambda>t. t\<lparr>ti_State := TunnelStateError\<rparr>) s))" for a
    by (rule same_resources_trans [OF same_resources_tasks(4) same_resources_tasks(3)])
  then show ?thesis
    using same_resources_tasks(3) by (auto simp: task_ends_def split: option.splits task_phase.splits)
qed

lemma AList_update_new: "k \<notin> fst ` set xs \<Longrightarrow> AList.update k v xs = xs @ [(k, v)]"
  by (induction xs) auto

lemma session_inv_forward:
  assumes inv: "session_inv cfg s" and max: "0 \<le> sc_MaxTunnels cfg"
    and listen: "\<And>laddr. listen = Some laddr \<Longrightarrow> port_of_addr laddr \<notin> snd ` set (ss_open s)"
  shows "session_inv cfg (snd (handleForwardRequest cfg S W listen payload s))"
proof -
  obtain addr port where msg: "w_forward W payload = (addr, port)" by fastforce
  show ?thesis
  proof (cases "(port \<noteq> 0 \<and> \<not> IsValidPort cfg port) \<or> sc_MaxTunnels cfg \<le> int (length (co_Tunnels (ss_conn s))) \<or>
      listen = None")
    case True
    then show ?thesis using inv by (auto simp: handleForwardRequest_def msg)
  next
    case False
    then obtain laddr where l: "listen = Some laddr" by blast
    let ?p = "port_of_addr laddr" and ?ln = "ss_nextListener s" and ?a = "ss_nextTunnel s"
    have p: "?p \<notin> fst ` set (co_Tunnels (ss_conn s))" "?p \<notin> snd ` set (ss_open s)"
      using listen [OF l] inv by (simp_all add: session_inv_def)
    have ln: "?ln \<notin> fst ` set (ss_open s)" using inv by (auto simp: session_inv_def)
    have a: "a \<noteq> ?a" if "(q, a) \<in> set (co_Tunnels (ss_conn s))" for q a
      using inv that by (auto simp: session_inv_def)
    have "snd (handleForwardRequest cfg S W listen payload s) =
      s\<lparr>ss_tunnels := (ss_tunnels s)(?a := new_TunnelInfo cfg S ?p addr ?ln), ss_nextTunnel := Suc ?a,
        ss_open := (?ln, ?p) # ss_open s, ss_nextListener := Suc ?ln,
        ss_conn := (ss_conn s)\<lparr>co_Tunnels := co_Tunnels (ss_conn s) @ [(?p, ?a)]\<rparr>,
        ss_loops := (?ln, ?p) # ss_loops s\<rparr>"
      using False by (auto simp: handleForwardRequest_def msg l Let_def AList_update_new [OF p(1)])
    moreover have "int (length (co_Tunnels (ss_conn s)) + 1) \<le> max 0 (sc_MaxTunnels cfg)"
      using False by simp
    ultimately show ?thesis
      using inv p ln a by (auto simp: session_inv_def new_TunnelInfo_def less_Suc_eq)
  qed
qed

lemma session_inv_cancel:
  assumes inv: "session_inv cfg s"
  shows "session_inv cfg (snd (handleCancelForwardRequest W payload s))"
proof -
  obtain addr port where msg: "w_forward W payload = (addr, port)" by fastforce
  show ?thesis
  proof (cases "lookup_tunnel port s")
    case None
    then show ?thesis using inv by (simp add: handleCancelForwardRequest_def msg)
  next
    case (Some a)
    then have pa: "(port, a) \<in> set (co_Tunnels (ss_conn s))"
      by (simp add: lookup_tunnel_def map_of_SomeD)
    then obtain l where l: "ti_Listener (ss_tunnels s a) = Some l" "(l, port) \<in> set (ss_open s)"
      using inv by (auto simp: session_inv_def)
    have only: "(l, q) \<in> set (ss_open s) \<Longrightarrow> q = port" "(j, port) \<in> set (ss_open s) \<Longrightarrow> j = l" for j q
      using inv eq_key_imp_eq_value [of "ss_open s" l port q] eq_value_imp_eq_key [of "ss_open s" l port j] l(2)
      by (auto simp: session_inv_def)
    let ?T = "AList.delete port (co_Tunnels (ss_conn s))" and ?O = "filter (\<lambda>(j, q). q \<noteq> port) (ss_open s)"
    have closed: "filter (\<lambda>(j, q). j \<noteq> l) (ss_open s) = ?O"
      by (intro filter_cong refl) (auto dest: only)
    have res: "snd (handleCancelForwardRequest W payload s) =
        s\<lparr>ss_open := ?O, ss_conn := (ss_conn s)\<lparr>co_Tunnels := ?T\<rparr>\<rparr>"
      by (simp add: handleCancelForwardRequest_def msg Some l(1) close_listener_def Let_def closed)
    have T: "(q, b) \<in> set ?T \<longleftrightarrow> (q, b) \<in> set (co_Tunnels (ss_conn s)) \<and> q \<noteq> port" for q b
      by (auto simp: AList.delete_eq)
    have O: "(j, q) \<in> set ?O \<longleftrightarrow> (j, q) \<in> set (ss_open s) \<and> q \<noteq> port" for j q
      by simp
    have "fst ` set ?T = fst ` set (co_Tunnels (ss_conn s)) - {port}"
      using arg_cong [OF delete_keys [of port "co_Tunnels (ss_conn s)"], of set] by simp
    moreover have "snd ` set ?O = snd ` set (ss_open s) - {port}" by auto
    ultimately have keys: "snd ` set ?O = fst ` set ?T"
      using inv by (simp add: session_inv_def)
    have "a < ss_nextTunnel s \<and> ti_RemotePort (ss_tunnels s a) = q \<and>
        (\<exists>j. ti_Listener (ss_tunnels s a) = Some j \<and> (j, q) \<in> set ?O)" if "(q, a) \<in> set ?T" for q a
      using inv that T unfolding session_inv_def O by blast
    moreover have "j < ss_nextListener s" if "(j, q) \<in> set ?O" for j q
      using inv that O unfolding session_inv_def by blast
    moreover have "int (length ?T) \<le> max 0 (sc_MaxTunnels cfg)"
      using inv length_delete_le [of port "co_Tunnels (ss_conn s)"] by (simp add: session_inv_def)
    moreover have "distinct (map fst ?T)" "distinct (map fst ?O)" "distinct (map snd ?O)"
      using inv by (simp_all add: session_inv_def distinct_delete distinct_map_filter)
    ultimately show ?thesis
      unfolding res session_inv_def by (simp add: keys del: set_filter) blast
  qed
qed

lemma session_inv_request:
  assumes "session_inv cfg s" "0 \<le> sc_MaxTunnels cfg" "listen_ok W s req V"
  shows "session_inv cfg (snd (handle_request cfg S W V req s))"
proof -
  have "session_inv cfg (snd (handleForwardRequest cfg S W (re_listen V) (rq_Payload req) s))"
    by (rule session_inv_forward [OF assms(1,2)]) (use assms(3) in \<open>simp add: listen_ok_def\<close>)
  then show ?thesis
    using assms(1) session_inv_cancel [OF assms(1)]
      session_inv_same [OF assms(1) same_resources_handlers(1)]
      session_inv_same [OF assms(1) same_resources_handlers(2)]
      session_inv_same [OF assms(1) same_resources_handlers(3)]
      session_inv_same [OF assms(1) same_resources_handlers(4)]
    by (simp add: handle_request_def)
qed

lemma session_inv_step:
  assumes "session_inv cfg s" "0 \<le> sc_MaxTunnels cfg" "event_possible W s e"
  shows "session_inv cfg (session_step cfg S W s e)"
proof (cases e)
  case (Request req V)
  then show ?thesis using session_inv_request [OF assms(1,2), of W req V S] assms(3) by simp
qed (simp_all add: session_inv_same [OF assms(1)] session_simps)

lemma session_inv_new: "session_inv cfg (new_session sid addr now blank)"
  by (simp add: session_inv_def new_session_def)

interpretation session: transition_system
  "\<lambda>s. 0 \<le> sc_MaxTunnels cfg \<and> (\<exists>sid addr now blank. s = new_session sid addr now blank)"
  "session_trans cfg S W" "\<lambda>s. 0 \<le> sc_MaxTunnels cfg \<and> session_inv cfg s" for cfg S W
  by unfold_locales (auto simp: session_trans_def session_inv_new intro: session_inv_step)

section \<open>Closing\<close>

abbreviation close_all :: "(u32 \<times> nat) list \<Rightarrow> 's session \<Rightarrow> 's session" where
  "close_all xs s \<equiv> foldl (\<lambda>s (port, a). close_listener (ti_Listener (ss_tunnels s a)) s) s xs"

lemma close_listener_simps:
  "ss_tunnels (close_listener l s) = ss_tunnels s" "ss_conn (close_listener l s) = ss_conn s"
  "(j, q) \<in> set (ss_open (close_listener l s)) \<longleftrightarrow> (j, q) \<in> set (ss_open s) \<and> Some j \<noteq> l"
  by (auto simp: close_listener_def split: option.splits)

lemma close_all_open:
  "(j, q) \<in> set (ss_open (close_all xs s)) \<longleftrightarrow>
     (j, q) \<in> set (ss_open s) \<and> (\<forall>(p, a) \<in> set xs. ti_Listener (ss_tunnels s a) \<noteq> Some j)"
proof (induction xs arbitrary: s)
  case (Cons x xs)
  obtain p a where "x = (p, a)" by force
  then show ?case
    using Cons [of "close_listener (ti_Listener (ss_tunnels s a)) s"] by (auto simp: close_listener_simps)
qed simp

lemma open_listener_tunnel:
  assumes "session_inv cfg s" "(l, q) \<in> set (ss_open s)"
  shows "\<exists>a. (q, a) \<in> set (co_Tunnels (ss_conn s)) \<and> ti_Listener (ss_tunnels s a) = Some l"
proof -
  have i: "snd ` set (ss_open s) = fst ` set (co_Tunnels (ss_conn s))" "distinct (map snd (ss_open s))"
    and t: "\<And>p a. (p, a) \<in> set (co_Tunnels (ss_conn s)) \<Longrightarrow>
      \<exists>l. ti_Listener (ss_tunnels s a) = Some l \<and> (l, p) \<in> set (ss_open s)"
    using assms(1) unfolding session_inv_def by blast+
  have "q \<in> fst ` set (co_Tunnels (ss_conn s))"
    unfolding i(1) [symmetric] using imageI [OF assms(2), of snd] by simp
  then obtain a where a: "(q, a) \<in> set (co_Tunnels (ss_conn s))" by auto
  then obtain l' where l': "ti_Listener (ss_tunnels s a) = Some l'" "(l', q) \<in> set (ss_open s)"
    using t by blast
  have "l' = l" by (rule eq_value_imp_eq_key [OF i(2) l'(2) assms(2)])
  with a l'(1) show ?thesis by blast
qed

lemma cleanup_closes_all:
  assumes inv: "session_inv cfg s" and order: "\<And>xs. set (order xs) = set xs"
  shows "ss_open (session_cleanup order s) = []"
proof -
  have "x \<notin> set (ss_open (session_cleanup order s))" for x
    using open_listener_tunnel [OF inv, of "fst x" "snd x"]
    by (cases x) (auto simp: session_cleanup_def close_all_open order)
  then show ?thesis by (cases "ss_open (session_cleanup order s)") auto
qed

section \<open>The handlers, branch by branch\<close>

lemma lookup_update: "lookup_tunnel q (s\<lparr>ss_conn := (ss_conn s)\<lparr>co_Tunnels := AList.update p a (co_Tunnels (ss_conn s))\<rparr>\<rparr>) =
    (if q = p then Some a else lookup_tunnel q s)"
  by (simp add: lookup_tunnel_def update_conv')

lemma lookup_tunnel_simps [simp]:
  "lookup_tunnel q (s\<lparr>ss_tunnels := f\<rparr>) = lookup_tunnel q s"
  "lookup_tunnel q (s\<lparr>ss_tasks := ts\<rparr>) = lookup_tunnel q s"
  "lookup_tunnel q (s\<lparr>ss_panic := b\<rparr>) = lookup_tunnel q s"
  "lookup_tunnel q (s\<lparr>ss_loops := ls\<rparr>) = lookup_tunnel q s"
  "lookup_tunnel q (update_tunnel a g s) = lookup_tunnel q s"
  by (simp_all add: lookup_tunnel_def update_tunnel_def)

text \<open>(C22) A forward request is granted exactly when its port is 0 or in the configured range, the client
  has less than its maximum of tunnels and the port can be bound; then the reply carries the bound
  port, which is the requested one if one was requested, an idle tunnel without connections is
  registered under it, and every other tunnel is as before. Otherwise the reply is a refusal and
  nothing changes.\<close>

theorem handleForwardRequest_correct:
  assumes msg: "w_forward W payload = (addr, port)"
    and law: "\<And>laddr. listen = Some laddr \<Longrightarrow> port \<noteq> 0 \<Longrightarrow> port_of_addr laddr = port"
  shows "case (handleForwardRequest cfg S W listen payload s, listen) of
    ((r, s'), Some laddr) \<Rightarrow>
      if (port = 0 \<or> port \<in> {sc_MinPort cfg..sc_MaxPort cfg}) \<and> int (length (co_Tunnels (ss_conn s))) < sc_MaxTunnels cfg
      then (let p = port_of_addr laddr
            in r = Reply True (put_uint32 p) \<and> (port = 0 \<or> p = port) \<and>
               lookup_tunnel p s' = Some (ss_nextTunnel s) \<and>
               ss_tunnels s' (ss_nextTunnel s) = new_TunnelInfo cfg S p addr (ss_nextListener s) \<and>
               ss_open s' = (ss_nextListener s, p) # ss_open s \<and>
               (\<forall>q. q \<noteq> p \<longrightarrow> lookup_tunnel q s' = lookup_tunnel q s) \<and>
               (\<forall>a. a \<noteq> ss_nextTunnel s \<longrightarrow> ss_tunnels s' a = ss_tunnels s a))
      else r = Reply False '''' \<and> s' = s
  | ((r, s'), None) \<Rightarrow> r = Reply False '''' \<and> s' = s"
  using law
  by (auto simp: handleForwardRequest_def msg IsValidPort_def Let_def lookup_tunnel_def update_conv'
      split: option.splits if_splits)

text \<open>(C23) A cancel request closes the listener of the named tunnel and forgets exactly that tunnel; for an
  unknown port it is refused and nothing changes.\<close>

theorem handleCancelForwardRequest_correct:
  assumes inv: "session_inv cfg s" and msg: "w_forward W payload = (addr, port)"
  shows "case handleCancelForwardRequest W payload s of (r, s') \<Rightarrow>
    if lookup_tunnel port s = None then r = Reply False '''' \<and> s' = s
    else r = Reply True '''' \<and> lookup_tunnel port s' = None \<and> port \<notin> snd ` set (ss_open s') \<and>
      (\<forall>q. q \<noteq> port \<longrightarrow> lookup_tunnel q s' = lookup_tunnel q s \<and> (q \<in> snd ` set (ss_open s') \<longleftrightarrow> q \<in> snd ` set (ss_open s))) \<and>
      ss_tunnels s' = ss_tunnels s"
proof -
  obtain r s' where h: "handleCancelForwardRequest W payload s = (r, s')" by fastforce
  have inv': "session_inv cfg s'"
    using session_inv_cancel [OF inv, of W payload] by (simp add: h)
  have ports: "snd ` set (ss_open t) = dom (\<lambda>q. lookup_tunnel q t)" if "session_inv cfg t" for t :: "'a session"
    using that dom_map_of_conv_image_fst [of "co_Tunnels (ss_conn t)"]
    by (simp add: session_inv_def lookup_tunnel_def [abs_def])
  show ?thesis
  proof (cases "lookup_tunnel port s")
    case None
    then show ?thesis by (simp add: handleCancelForwardRequest_def msg)
  next
    case (Some a)
    have "lookup_tunnel q s' = (if q = port then None else lookup_tunnel q s)" "r = Reply True ''''"
      "ss_tunnels s' = ss_tunnels s" for q
      using h Some
      by (auto simp: handleCancelForwardRequest_def msg Let_def lookup_tunnel_def delete_conv' close_listener_simps)
    then show ?thesis
      by (auto simp: h Some ports [OF inv] ports [OF inv'] dom_def)
  qed
qed

text \<open>Tunnel metadata and health reports reach only the tunnel they name: after a well-formed message
  for a port with a tunnel, that tunnel has the name, the local address and the timeout (or the state)
  of the message and keeps everything else; a message for another port is acknowledged without
  effect, and one that does not decode is refused without effect.\<close>

theorem metadata_updates_named_tunnel:
  "(case w_json W payload of
      Some j \<Rightarrow>
        (case (decode_TunnelInfo j, decode_HealthReport j) of
           (ti, hr) \<Rightarrow>
             (case ti of
                None \<Rightarrow> handleTunnelInfoRequest W payload s = (Reply False '''', s)
              | Some m \<Rightarrow>
                  handleTunnelInfoRequest W payload s = (Reply True '''',
                    case lookup_tunnel (tm_Port m) s of None \<Rightarrow> s
                    | Some a \<Rightarrow> s\<lparr>ss_tunnels := (ss_tunnels s)(a := (ss_tunnels s a)\<lparr>ti_Name := tm_Name m,
                        ti_LocalAddr := tm_LocalIP m @ '':'' @ dec_of_int (tm_LocalPort m),
                        ti_ConnTimeout := int64 (tm_Timeout m * second)\<rparr>)\<rparr>)) \<and>
             (case hr of
                None \<Rightarrow> handleHealthReportRequest W payload s = (Reply False '''', s)
              | Some m \<Rightarrow>
                  handleHealthReportRequest W payload s = (Reply True '''',
                    case lookup_tunnel (hr_Port m) s of None \<Rightarrow> s
                    | Some a \<Rightarrow> s\<lparr>ss_tunnels := (ss_tunnels s)(a := (ss_tunnels s a)\<lparr>ti_State := hr_Status m\<rparr>)\<rparr>)))
    | None \<Rightarrow> handleTunnelInfoRequest W payload s = (Reply False '''', s) \<and>
              handleHealthReportRequest W payload s = (Reply False '''', s))"
proof -
  have same: "s\<lparr>ss_tunnels := (ss_tunnels s)(a := (ss_tunnels s a)\<lparr>ti_State := x\<rparr>)\<rparr> = s"
    if "ti_State (ss_tunnels s a) = x" for a x
  proof -
    have "(ss_tunnels s)(a := (ss_tunnels s a)\<lparr>ti_State := x\<rparr>) = ss_tunnels s"
      using that by (auto simp: fun_eq_iff)
    then show ?thesis by simp
  qed
  show ?thesis
    by (auto simp: handleTunnelInfoRequest_def handleHealthReportRequest_def update_tunnel_def Let_def
        seconds_def same split: option.splits)
qed

section \<open>Concrete sessions\<close>

definition demo_blank :: "(int \<times> int) TunnelInfo" where
  "demo_blank = new_TunnelInfo demo_scfg count_sem 0 '''' 0"

definition demo_new :: "(int \<times> int) session" where
  "demo_new = new_session ''sess_1'' ''10.0.0.1:4000'' 1 demo_blank"

text \<open>A request to forward \<open>port\<close>, answered by a listener on \<open>actual\<close>.\<close>

definition demo_forward :: "u32 \<Rightarrow> request" where
  "demo_forward port = \<lparr>rq_Type = ''tcpip-forward'', rq_Payload = w_marshal_forward demo_wire (''0.0.0.0'', port)\<rparr>"

definition demo_cancel :: "u32 \<Rightarrow> request" where
  "demo_cancel port = \<lparr>rq_Type = ''cancel-tcpip-forward'', rq_Payload = w_marshal_forward demo_wire (''0.0.0.0'', port)\<rparr>"

definition demo_addr :: "u32 \<Rightarrow> string" where
  "demo_addr p = JoinHostPort ''0.0.0.0'' (dec_of_nat (unat p))"

definition demo_listen :: "u32 \<Rightarrow> request_env" where
  "demo_listen actual = \<lparr>re_listen = Some (demo_addr actual), re_order = (\<lambda>xs. xs)\<rparr>"

lemma demo_msg: "w_forward demo_wire (w_marshal_forward demo_wire (''0.0.0.0'', port)) = (''0.0.0.0'', port)"
  using demo_wire_laws by (simp add: wire_laws_def)

lemma demo_port: "port_of_addr (demo_addr p) = p"
  unfolding demo_addr_def by (rule port_of_addr_Join) simp

lemma demo_request:
  "handle_request cfg S demo_wire (demo_listen actual) (demo_forward port) s =
     handleForwardRequest cfg S demo_wire (Some (demo_addr actual)) (w_marshal_forward demo_wire (''0.0.0.0'', port)) s"
  "handle_request cfg S demo_wire V (demo_cancel port) s =
     handleCancelForwardRequest demo_wire (w_marshal_forward demo_wire (''0.0.0.0'', port)) s"
  by (simp_all add: handle_request_def demo_forward_def demo_listen_def demo_cancel_def)

theorem handleForwardRequest_correct_witness:
  "fst (handleForwardRequest demo_scfg count_sem demo_wire (Some (demo_addr 8080))
     (w_marshal_forward demo_wire (''0.0.0.0'', 8080)) demo_new) = Reply True (put_uint32 8080)"
  using handleForwardRequest_correct [OF demo_msg, where listen = "Some (demo_addr 8080)" and port = 8080
      and cfg = demo_scfg and S = count_sem and s = demo_new]
  by (auto simp: demo_port demo_scfg_simp demo_new_def new_session_def Let_def split: prod.splits)

theorem handleCancelForwardRequest_correct_witness:
  "fst (handleCancelForwardRequest demo_wire (w_marshal_forward demo_wire (''0.0.0.0'', 8080)) demo_new) = Reply False ''''"
proof -
  have "lookup_tunnel 8080 demo_new = None"
    by (simp add: demo_new_def new_session_def lookup_tunnel_def)
  then show ?thesis
    using handleCancelForwardRequest_correct [OF session_inv_new demo_msg, of 8080 "''sess_1''" "''10.0.0.1:4000''" 1 demo_blank]
    by (simp add: case_prod_beta demo_new_def [symmetric])
qed

text \<open>(C5) A session's resources are bounded and released: in every reachable state of a session (any
  order of requests, user connections and task steps) it has at most \<open>MaxTunnels\<close> tunnels, the open
  listeners are exactly one per tunnel, on its port, and the cleanup at the end of the session closes
  all of them, in whatever order the map is ranged over.\<close>

theorem session_resources:
  assumes "0 \<le> sc_MaxTunnels cfg" "(session_trans cfg S W)\<^sup>*\<^sup>* (new_session sid addr now blank) s"
    and "\<And>xs. set (order xs) = set xs"
  shows "int (length (co_Tunnels (ss_conn s))) \<le> sc_MaxTunnels cfg \<and>
    distinct (map snd (ss_open s)) \<and> snd ` set (ss_open s) = fst ` set (co_Tunnels (ss_conn s)) \<and>
    length (ss_open s) = length (co_Tunnels (ss_conn s)) \<and>
    ss_open (session_cleanup order s) = []"
proof -
  have inv: "session_inv cfg s"
    using session.reachable_inv [OF _ assms(2)] assms(1) by blast
  have "length (ss_open s) = card (snd ` set (ss_open s))"
    using inv distinct_card [of "map snd (ss_open s)"] by (simp add: session_inv_def)
  moreover have "length (co_Tunnels (ss_conn s)) = card (fst ` set (co_Tunnels (ss_conn s)))"
    using inv distinct_card [of "map fst (co_Tunnels (ss_conn s))"] by (simp add: session_inv_def)
  ultimately show ?thesis
    using inv assms(1) cleanup_closes_all [OF inv assms(3)] by (simp add: session_inv_def)
qed

lemma demo_reach: "(session_trans demo_scfg count_sem demo_wire)\<^sup>*\<^sup>* (new_session ''sess_1'' ''10.0.0.1:4000'' 1 demo_blank)
    (session_step demo_scfg count_sem demo_wire demo_new (Request (demo_forward 8080) (demo_listen 8080)))"
  by (rule r_into_rtranclp, unfold session_trans_def,
      rule exI [of _ "Request (demo_forward 8080) (demo_listen 8080)"])
     (simp add: listen_ok_def demo_listen_def demo_port demo_forward_def demo_msg demo_new_def new_session_def)

theorem session_resources_witness:
  "ss_open (session_cleanup rev (session_step demo_scfg count_sem demo_wire demo_new
     (Request (demo_forward 8080) (demo_listen 8080)))) = []"
  using session_resources [OF _ demo_reach, of rev] by (simp add: demo_scfg_simp)


text \<open>A request handled after the cleanup leaks its port: the requests of a connection are handled by
  another goroutine, which nothing stops before the cleanup, so one still queued when the connection
  ends can open a listener that no one closes.\<close>

theorem late_request_leaks_listener:
  "ss_open (session_step demo_scfg count_sem demo_wire (session_cleanup rev demo_new)
     (Request (demo_forward 8080) (demo_listen 8080))) = [(0, 8080)]"
  by (simp add: demo_request handleForwardRequest_def demo_msg demo_port IsValidPort_def demo_scfg_simp
      session_cleanup_def demo_new_def new_session_def Let_def)

end
