(* ===== verification/Relay.thy ===== *)
theory Relay
  imports Tunnel_Session
begin

text \<open>
  The user connections of a session's tunnels, \<open>acceptClientConnections\<close> and \<open>handleClientConnection\<close> of
  \<open>src/pkg/server/server.go\<close> with its deferred release: how many a tunnel relays at once, that each of
  them can end, and what happens when a port is cancelled and forwarded again between a user's accept and
  the lookup of its goroutine. The copies a relayed connection runs are in \<open>Copy_Loop\<close>.
\<close>

section \<open>Concurrent connections of a tunnel\<close>

text \<open>The unfinished tasks of a port.\<close>

definition live :: "u32 \<Rightarrow> 's session \<Rightarrow> nat" where
  "live p s = length (filter (\<lambda>t. tk_port t = p \<and> tk_phase t \<noteq> Finished) (ss_tasks s))"

definition tunnel_counts :: "('s \<Rightarrow> int) \<Rightarrow> ('s \<Rightarrow> int) \<Rightarrow> int \<Rightarrow> nat \<Rightarrow> 's TunnelInfo \<Rightarrow> bool" where
  "tunnel_counts held cap m n t \<longleftrightarrow>
     cap (ti_connSem t) = m \<and> held (ti_connSem t) = int n \<and> ti_ActiveConns t = of_nat n \<and> int n \<le> max 0 m"

definition relay_inv ::
  "ServerConfig \<Rightarrow> 's semaphore \<Rightarrow> ('s \<Rightarrow> int) \<Rightarrow> ('s \<Rightarrow> int) \<Rightarrow> 's session \<Rightarrow> bool" where
  "relay_inv cfg S held cap s \<longleftrightarrow>
     sem_laws S held cap \<and> session_inv cfg s \<and> \<not> ss_panic s \<and>
     (\<forall>p a. lookup_tunnel p s = Some a \<longrightarrow>
        tunnel_counts held cap (sc_MaxConnsPerTunnel cfg) (live p s) (ss_tunnels s a)) \<and>
     (\<forall>t \<in> set (ss_tasks s). tk_phase t \<noteq> Finished \<longrightarrow>
        lookup_tunnel (tk_port t) s \<noteq> None \<and>
        (\<forall>c. tk_phase t = Relaying c \<longrightarrow> c = lookup_tunnel (tk_port t) s))"

lemma relay_invD:
  assumes "relay_inv cfg S held cap s"
  shows "sem_laws S held cap" "session_inv cfg s" "\<not> ss_panic s"
    and "lookup_tunnel p s = Some a \<Longrightarrow>
      tunnel_counts held cap (sc_MaxConnsPerTunnel cfg) (live p s) (ss_tunnels s a)"
    and "t \<in> set (ss_tasks s) \<Longrightarrow> tk_phase t \<noteq> Finished \<Longrightarrow> lookup_tunnel (tk_port t) s \<noteq> None"
    and "t \<in> set (ss_tasks s) \<Longrightarrow> tk_phase t = Relaying c \<Longrightarrow> c = lookup_tunnel (tk_port t) s"
  using assms unfolding relay_inv_def by (blast+, force)

lemma relay_invI:
  assumes "sem_laws S held cap" "session_inv cfg s" "\<not> ss_panic s"
    and "\<And>p a. lookup_tunnel p s = Some a \<Longrightarrow>
      tunnel_counts held cap (sc_MaxConnsPerTunnel cfg) (live p s) (ss_tunnels s a)"
    and "\<And>t. t \<in> set (ss_tasks s) \<Longrightarrow> tk_phase t \<noteq> Finished \<Longrightarrow> lookup_tunnel (tk_port t) s \<noteq> None"
    and "\<And>t c. t \<in> set (ss_tasks s) \<Longrightarrow> tk_phase t = Relaying c \<Longrightarrow> c = lookup_tunnel (tk_port t) s"
  shows "relay_inv cfg S held cap s"
  unfolding relay_inv_def using assms by blast

lemma lookup_tunnel_facts:
  assumes "session_inv cfg s" "lookup_tunnel p s = Some a"
  shows "a < ss_nextTunnel s" "ti_RemotePort (ss_tunnels s a) = p"
proof -
  have "(p, a) \<in> set (co_Tunnels (ss_conn s))"
    using assms(2) unfolding lookup_tunnel_def by (rule map_of_SomeD)
  with assms(1) show "a < ss_nextTunnel s" "ti_RemotePort (ss_tunnels s a) = p"
    unfolding session_inv_def by blast+
qed

lemma lookup_tunnel_inj:
  "session_inv cfg s \<Longrightarrow> lookup_tunnel p s = Some a \<Longrightarrow> lookup_tunnel q s = Some a \<Longrightarrow> p = q"
  using lookup_tunnel_facts(2) by metis

lemma length_filter_update:
  "i < length xs \<Longrightarrow>
     length (filter P (xs[i := y])) + (if P (xs ! i) then 1 else 0) = length (filter P xs) + (if P y then 1 else 0)"
proof (induction xs arbitrary: i)
  case (Cons x xs)
  then show ?case by (cases i) auto
qed simp

text \<open>Steps that touch neither tasks nor counters.\<close>

definition same_counts :: "'s session \<Rightarrow> 's session \<Rightarrow> bool" where
  "same_counts s s' \<longleftrightarrow>
     ss_tasks s' = ss_tasks s \<and> ss_panic s' = ss_panic s \<and> co_Tunnels (ss_conn s') = co_Tunnels (ss_conn s) \<and>
     (\<forall>a. ti_connSem (ss_tunnels s' a) = ti_connSem (ss_tunnels s a) \<and>
          ti_ActiveConns (ss_tunnels s' a) = ti_ActiveConns (ss_tunnels s a))"

lemma relay_inv_same:
  assumes "relay_inv cfg S held cap s" "session_inv cfg s'" "same_counts s s'"
  shows "relay_inv cfg S held cap s'"
  using assms unfolding relay_inv_def same_counts_def live_def lookup_tunnel_def tunnel_counts_def by simp

lemma same_counts_handlers [session_simps]:
  "same_counts s (snd (handleClientInfoRequest W payload s))"
  "same_counts s (snd (handleTunnelInfoRequest W payload s))"
  "same_counts s (snd (handleHealthCheckRequest W order s))"
  "same_counts s (snd (handleHealthReportRequest W payload s))"
  "same_counts s (accept_failed ln s)"
  "same_counts s (update_tunnel a (\<lambda>t. t\<lparr>ti_State := st\<rparr>) s)"
  "same_counts s s"
  by (auto simp: handleClientInfoRequest_def handleTunnelInfoRequest_def handleHealthCheckRequest_def
      handleHealthReportRequest_def same_counts_def update_tunnel_def accept_failed_def Let_def split: option.splits)

text \<open>An accepted user connection takes a unit of the semaphore and becomes a task.\<close>

lemma relay_inv_accept:
  assumes inv: "relay_inv cfg S held cap s"
  shows "relay_inv cfg S held cap (acceptClientConnections S ln s)"
proof -
  note d = relay_invD [OF inv]
  have si: "session_inv cfg (acceptClientConnections S ln s)"
    by (rule session_inv_same [OF d(2) same_resources_tasks(1)])
  show ?thesis
  proof (cases "\<exists>p a sem. map_of (ss_loops s) ln = Some p \<and> lookup_tunnel p s = Some a \<and>
      sem_TryAcquire S (ti_connSem (ss_tunnels s a)) = Some sem")
    case False
    then have "same_counts s (acceptClientConnections S ln s)"
      by (auto simp: acceptClientConnections_def same_counts_def split: option.splits)
    then show ?thesis by (rule relay_inv_same [OF inv si])
  next
    case True
    then obtain p a sem where pa: "map_of (ss_loops s) ln = Some p" "lookup_tunnel p s = Some a"
        "sem_TryAcquire S (ti_connSem (ss_tunnels s a)) = Some sem" by blast
    let ?t = "(ss_tunnels s a)\<lparr>ti_connSem := sem, ti_State := TunnelStateActive,
      ti_ActiveConns := ti_ActiveConns (ss_tunnels s a) + 1\<rparr>"
    let ?s = "s\<lparr>ss_tunnels := (ss_tunnels s)(a := ?t),
      ss_tasks := ss_tasks s @ [\<lparr>tk_port = p, tk_phase = Spawned\<rparr>]\<rparr>"
    have res: "acceptClientConnections S ln s = ?s"
      by (simp add: acceptClientConnections_def pa update_tunnel_def Let_def)
    have l: "live q (s\<lparr>ss_tunnels := f, ss_tasks := ss_tasks s @ [\<lparr>tk_port = p, tk_phase = Spawned\<rparr>]\<rparr>) =
        live q s + (if q = p then 1 else 0)" for q f
      by (simp add: live_def)
    note acq = sem_try [OF d(1) pa(3)]
    show ?thesis
      unfolding res
    proof (rule relay_invI)
      show "session_inv cfg ?s" using si res by simp
      show "tunnel_counts held cap (sc_MaxConnsPerTunnel cfg) (live q ?s) (ss_tunnels ?s b)"
        if "lookup_tunnel q ?s = Some b" for q b
      proof (cases "q = p")
        case True
        then show ?thesis using d(4) [OF pa(2)] that pa(2) acq by (simp add: l tunnel_counts_def)
      next
        case False
        then have "b \<noteq> a" using lookup_tunnel_inj [OF d(2) pa(2), of q] that by auto
        then show ?thesis using d(4) [of q b] that False by (simp add: l)
      qed
      show "lookup_tunnel (tk_port t) ?s \<noteq> None" if "t \<in> set (ss_tasks ?s)" "tk_phase t \<noteq> Finished" for t
        using that d(5) [of t] pa(2) by auto
      show "c = lookup_tunnel (tk_port t) ?s" if "t \<in> set (ss_tasks ?s)" "tk_phase t = Relaying c" for t c
        using that d(6) [of t c] by auto
    qed (use d(1,3) in simp_all)
  qed
qed

text \<open>The end of a task gives its unit back to the tunnel it took it from.\<close>

lemma relay_inv_end:
  assumes inv: "relay_inv cfg S held cap s" and i: "i < length (ss_tasks s)"
    and live: "tk_phase (ss_tasks s ! i) \<noteq> Finished" and a: "lookup_tunnel (tk_port (ss_tasks s ! i)) s = Some a"
  shows "relay_inv cfg S held cap (end_task S i (Some a) s)"
proof -
  note d = relay_invD [OF inv]
  let ?p = "tk_port (ss_tasks s ! i)" and ?ts = "(ss_tasks s)[i := (ss_tasks s ! i)\<lparr>tk_phase := Finished\<rparr>]"
  have n: "length (filter (\<lambda>t. tk_port t = q \<and> tk_phase t \<noteq> Finished) ?ts) + (if q = ?p then 1 else 0) = live q s" for q
    using length_filter_update [OF i, of "\<lambda>t. tk_port t = q \<and> tk_phase t \<noteq> Finished"
        "(ss_tasks s ! i)\<lparr>tk_phase := Finished\<rparr>"] live
    by (auto simp: live_def)
  have cnt: "tunnel_counts held cap (sc_MaxConnsPerTunnel cfg) (live ?p s) (ss_tunnels s a)"
    by (rule d(4) [OF a])
  then have "0 < held (ti_connSem (ss_tunnels s a))"
    using n [of ?p] by (simp add: tunnel_counts_def)
  then obtain sem where sem: "sem_Release S (ti_connSem (ss_tunnels s a)) = Some sem"
      "held sem = held (ti_connSem (ss_tunnels s a)) - 1" "cap sem = cap (ti_connSem (ss_tunnels s a))"
    using sem_release [OF d(1)] by blast
  let ?t = "(ss_tunnels s a)\<lparr>ti_connSem := sem, ti_ActiveConns := ti_ActiveConns (ss_tunnels s a) - 1\<rparr>"
  let ?s = "s\<lparr>ss_tasks := ?ts, ss_tunnels := (ss_tunnels s)(a := ?t)\<rparr>"
  have res: "end_task S i (Some a) s = ?s"
    by (simp add: end_task_def sem(1) update_tunnel_def Let_def)
  have l: "live q ?s + (if q = ?p then 1 else 0) = live q s" for q
    using n [of q] by (simp add: live_def)
  have old: "t \<in> set (ss_tasks s)" if "t \<in> set ?ts" "tk_phase t \<noteq> Finished" for t
    using that set_update_subset_insert [of "ss_tasks s" i "(ss_tasks s ! i)\<lparr>tk_phase := Finished\<rparr>"] by auto
  show ?thesis
    unfolding res
  proof (rule relay_invI)
    show "session_inv cfg ?s"
      using session_inv_same [OF d(2) same_resources_tasks(3)] res by metis
    show "tunnel_counts held cap (sc_MaxConnsPerTunnel cfg) (live q ?s) (ss_tunnels ?s b)"
      if "lookup_tunnel q ?s = Some b" for q b
    proof (cases "q = ?p")
      case True
      then have "int (live q ?s) = int (live ?p s) - 1" "(of_nat (live q ?s) :: 32 word) = of_nat (live ?p s) - 1"
        using l [of q] by (simp_all flip: l [of ?p])
      then show ?thesis using cnt that True a sem(2,3) by (simp add: tunnel_counts_def)
    next
      case False
      then have "b \<noteq> a" using lookup_tunnel_inj [OF d(2) a, of q] that by auto
      then show ?thesis using d(4) [of q b] that l [of q] False by simp
    qed
    show "lookup_tunnel (tk_port t) ?s \<noteq> None" if "t \<in> set (ss_tasks ?s)" "tk_phase t \<noteq> Finished" for t
      using d(5) [of t] old [of t] that by simp
    show "c = lookup_tunnel (tk_port t) ?s" if "t \<in> set (ss_tasks ?s)" "tk_phase t = Relaying c" for t c
      using d(6) [of t c] old [of t] that by simp
  qed (use d(1,3) in simp_all)
qed

lemma relay_inv_start:
  assumes inv: "relay_inv cfg S held cap s"
  shows "relay_inv cfg S held cap (start_task S i s)"
proof (cases "i < length (ss_tasks s) \<and> tk_phase (ss_tasks s ! i) = Spawned")
  case False
  then show ?thesis using inv by (auto simp: start_task_def)
next
  case True
  note d = relay_invD [OF inv]
  let ?p = "tk_port (ss_tasks s ! i)"
  obtain a where a: "lookup_tunnel ?p s = Some a"
    using d(5) [of "ss_tasks s ! i"] True by auto
  show ?thesis
  proof (cases "ti_LocalAddr (ss_tunnels s a) = ''''")
    case empty: True
    then show ?thesis
      using relay_inv_end [OF inv _ _ a] True by (simp add: start_task_def a Let_def)
  next
    case False
    let ?ts = "(ss_tasks s)[i := (ss_tasks s ! i)\<lparr>tk_phase := Relaying (Some a)\<rparr>]"
    have res: "start_task S i s = s\<lparr>ss_tasks := ?ts\<rparr>"
      using True False by (simp add: start_task_def a Let_def)
    have n: "length (filter (\<lambda>t. tk_port t = q \<and> tk_phase t \<noteq> Finished) ?ts) = live q s" for q
      using length_filter_update [of i "ss_tasks s" "\<lambda>t. tk_port t = q \<and> tk_phase t \<noteq> Finished"
          "(ss_tasks s ! i)\<lparr>tk_phase := Relaying (Some a)\<rparr>"] True
      by (simp add: live_def)
    have new: "t \<in> set (ss_tasks s) \<or> t = (ss_tasks s ! i)\<lparr>tk_phase := Relaying (Some a)\<rparr>" if "t \<in> set ?ts" for t
      using that set_update_subset_insert [of "ss_tasks s" i "(ss_tasks s ! i)\<lparr>tk_phase := Relaying (Some a)\<rparr>"] by auto
    show ?thesis
      unfolding res
    proof (rule relay_invI)
      show "session_inv cfg (s\<lparr>ss_tasks := ?ts\<rparr>)"
        using session_inv_same [OF d(2) same_resources_start] res by metis
      show "tunnel_counts held cap (sc_MaxConnsPerTunnel cfg) (live q (s\<lparr>ss_tasks := ?ts\<rparr>)) (ss_tunnels (s\<lparr>ss_tasks := ?ts\<rparr>) b)"
        if "lookup_tunnel q (s\<lparr>ss_tasks := ?ts\<rparr>) = Some b" for q b
        using d(4) [of q b] that n [of q] by (simp add: live_def)
      show "lookup_tunnel (tk_port t) (s\<lparr>ss_tasks := ?ts\<rparr>) \<noteq> None"
        if "t \<in> set (ss_tasks (s\<lparr>ss_tasks := ?ts\<rparr>))" "tk_phase t \<noteq> Finished" for t
        using d(5) [of t] new [of t] that a by auto
      show "c = lookup_tunnel (tk_port t) (s\<lparr>ss_tasks := ?ts\<rparr>)"
        if "t \<in> set (ss_tasks (s\<lparr>ss_tasks := ?ts\<rparr>))" "tk_phase t = Relaying c" for t c
        using d(6) [of t c] new [of t] that a by auto
    qed (use d(1,3) in simp_all)
  qed
qed

lemma relay_inv_ends:
  assumes inv: "relay_inv cfg S held cap s"
  shows "relay_inv cfg S held cap (task_ends S opened i s)"
proof (cases "\<exists>a. i < length (ss_tasks s) \<and> tk_phase (ss_tasks s ! i) = Relaying (Some a)")
  case False
  then show ?thesis
    using inv by (auto simp: task_ends_def split: task_phase.splits option.splits)
next
  case True
  then obtain a where i: "i < length (ss_tasks s)" "tk_phase (ss_tasks s ! i) = Relaying (Some a)" by blast
  let ?s = "if opened then s else update_tunnel a (\<lambda>t. t\<lparr>ti_State := TunnelStateError\<rparr>) s"
  have a: "lookup_tunnel (tk_port (ss_tasks s ! i)) s = Some a"
    using relay_invD(6) [OF inv, of "ss_tasks s ! i"] i by simp
  have "relay_inv cfg S held cap ?s"
    using relay_inv_same [OF inv session_inv_same [OF relay_invD(2) [OF inv] same_resources_tasks(4)] same_counts_handlers(6)] inv
    by simp
  moreover have "ss_tasks ?s = ss_tasks s" "lookup_tunnel (tk_port (ss_tasks s ! i)) ?s = Some a"
    using a by (simp_all add: update_tunnel_def)
  ultimately have "relay_inv cfg S held cap (end_task S i (Some a) ?s)"
    using i by (intro relay_inv_end) simp_all
  then show ?thesis using i by (simp add: task_ends_def)
qed

lemma relay_inv_forward:
  assumes inv: "relay_inv cfg S held cap s" and max: "0 \<le> sc_MaxTunnels cfg"
    and listen: "\<And>laddr. listen = Some laddr \<Longrightarrow> port_of_addr laddr \<notin> snd ` set (ss_open s)"
  shows "relay_inv cfg S held cap (snd (handleForwardRequest cfg S W listen payload s))"
proof -
  note d = relay_invD [OF inv]
  have si: "session_inv cfg (snd (handleForwardRequest cfg S W listen payload s))"
    by (rule session_inv_forward [OF d(2) max listen])
  obtain addr port where msg: "w_forward W payload = (addr, port)" by fastforce
  show ?thesis
  proof (cases "(port \<noteq> 0 \<and> \<not> IsValidPort cfg port) \<or> sc_MaxTunnels cfg \<le> int (length (co_Tunnels (ss_conn s))) \<or>
      listen = None")
    case True
    then show ?thesis using inv by (auto simp: handleForwardRequest_def msg)
  next
    case False
    then obtain laddr where l: "listen = Some laddr" by blast
    let ?p = "port_of_addr laddr" and ?a = "ss_nextTunnel s"
    let ?t = "new_TunnelInfo cfg S ?p addr (ss_nextListener s)"
    define s' where "s' = snd (handleForwardRequest cfg S W listen payload s)"
    have s': "ss_tunnels s' = (ss_tunnels s)(?a := ?t)" "ss_tasks s' = ss_tasks s" "ss_panic s' = ss_panic s"
      "lookup_tunnel q s' = (if q = ?p then Some ?a else lookup_tunnel q s)" for q
      unfolding s'_def using False
      by (auto simp: handleForwardRequest_def msg l Let_def lookup_tunnel_def update_conv')
    have "?p \<notin> fst ` set (co_Tunnels (ss_conn s))"
      using listen [OF l] d(2) by (simp add: session_inv_def)
    then have fresh: "lookup_tunnel ?p s = None"
      unfolding lookup_tunnel_def map_of_eq_None_iff .
    have none: "\<not> (tk_port t = ?p \<and> tk_phase t \<noteq> Finished)" if "t \<in> set (ss_tasks s)" for t
      using d(5) [OF that] fresh by metis
    have "live ?p s' = 0" by (simp add: live_def s' none)
    moreover have "live q s' = live q s" for q by (simp add: live_def s')
    ultimately have live: "live ?p s = 0" "\<And>q. live q s' = live q s" by simp_all
    show ?thesis
      unfolding s'_def [symmetric]
    proof (rule relay_invI)
      show "tunnel_counts held cap (sc_MaxConnsPerTunnel cfg) (live q s') (ss_tunnels s' b)"
        if "lookup_tunnel q s' = Some b" for q b
      proof (cases "q = ?p")
        case True
        then have "b = ?a" using that by (simp add: s')
        then show ?thesis
          using sem_new [OF d(1)] True live by (simp add: s' tunnel_counts_def new_TunnelInfo_def)
      next
        case False
        then have b: "lookup_tunnel q s = Some b" using that by (simp add: s')
        then have "b \<noteq> ?a" using lookup_tunnel_facts(1) [OF d(2) b] by simp
        then show ?thesis using d(4) [OF b] by (simp add: s' live)
      qed
      show "lookup_tunnel (tk_port t) s' \<noteq> None" if "t \<in> set (ss_tasks s')" "tk_phase t \<noteq> Finished" for t
        using d(5) [of t] that by (simp add: s')
      show "c = lookup_tunnel (tk_port t) s'" if "t \<in> set (ss_tasks s')" "tk_phase t = Relaying c" for t c
        using d(5,6) [of t] fresh that by (auto simp: s')
    qed (use d(1,3) si in \<open>simp_all add: s' flip: s'_def\<close>)
  qed
qed

text \<open>The steps of a session whose client cancels no tunnel.\<close>

fun no_cancel :: "session_event \<Rightarrow> bool" where
  "no_cancel (Request req V) \<longleftrightarrow> rq_Type req \<noteq> ''cancel-tcpip-forward''"
| "no_cancel _ \<longleftrightarrow> True"

definition relay_trans ::
  "ServerConfig \<Rightarrow> 's semaphore \<Rightarrow> wire_env \<Rightarrow> 's session \<Rightarrow> 's session \<Rightarrow> bool" where
  "relay_trans cfg S W s s' \<longleftrightarrow> (\<exists>e. event_possible W s e \<and> no_cancel e \<and> s' = session_step cfg S W s e)"

lemma relay_inv_request:
  assumes inv: "relay_inv cfg S held cap s" and max: "0 \<le> sc_MaxTunnels cfg" and "listen_ok W s req V"
    and nc: "rq_Type req \<noteq> ''cancel-tcpip-forward''"
  shows "relay_inv cfg S held cap (snd (handle_request cfg S W V req s))"
proof -
  have "relay_inv cfg S held cap (snd (handleForwardRequest cfg S W (re_listen V) (rq_Payload req) s))"
    by (rule relay_inv_forward [OF inv max]) (use assms(3) in \<open>simp add: listen_ok_def\<close>)
  moreover note same = relay_inv_same [OF inv session_inv_same [OF relay_invD(2) [OF inv]]]
  ultimately show ?thesis
    using inv nc same [OF same_resources_handlers(1) same_counts_handlers(1)]
      same [OF same_resources_handlers(2) same_counts_handlers(2)]
      same [OF same_resources_handlers(3) same_counts_handlers(3)]
      same [OF same_resources_handlers(4) same_counts_handlers(4)]
    by (simp add: handle_request_def)
qed

lemma relay_inv_step:
  assumes inv: "relay_inv cfg S held cap s" and "0 \<le> sc_MaxTunnels cfg" "event_possible W s e" "no_cancel e"
  shows "relay_inv cfg S held cap (session_step cfg S W s e)"
proof (cases e)
  case (Request req V)
  then show ?thesis using relay_inv_request [OF inv assms(2), of W req V] assms(3,4) by simp
next
  case (AcceptFails ln)
  then show ?thesis
    using relay_inv_same [OF inv session_inv_same [OF relay_invD(2) [OF inv] same_resources_tasks(2)] same_counts_handlers(5)]
    by simp
qed (simp_all add: relay_inv_accept [OF inv] relay_inv_start [OF inv] relay_inv_ends [OF inv])

interpretation relay: transition_system
  "\<lambda>s. 0 \<le> sc_MaxTunnels cfg \<and> sem_laws S held cap \<and> (\<exists>sid addr now blank. s = new_session sid addr now blank)"
  "relay_trans cfg S W" "\<lambda>s. 0 \<le> sc_MaxTunnels cfg \<and> relay_inv cfg S held cap s" for cfg S held cap W
proof (unfold_locales, goal_cases)
  case (1 s)
  then show ?case
    by (auto simp: relay_inv_def session_inv_new) (simp_all add: new_session_def lookup_tunnel_def)
next
  case (2 s t)
  then show ?case by (auto simp: relay_trans_def intro: relay_inv_step)
qed


text \<open>A session with one tunnel on port 8080 and one user connection on it.\<close>

definition demo_events_relay :: "session_event list" where
  "demo_events_relay = [Request (demo_forward 8080) (demo_listen 8080), UserConnects 0]"

abbreviation demo_run :: "(int \<times> int) session \<Rightarrow> session_event list \<Rightarrow> (int \<times> int) session" where
  "demo_run \<equiv> foldl (session_step demo_scfg count_sem demo_wire)"

lemma demo_facts:
  "sc_MaxTunnels demo_scfg = 10" "sc_MaxConnsPerTunnel demo_scfg = 100" "IsValidPort demo_scfg 8080"
  "sem_NewWeighted count_sem n = (n, 0)"
  "sem_TryAcquire count_sem (n, h) = (if h < n then Some (n, h + 1) else None)"
  "sem_Release count_sem (n, h) = (if 0 < h then Some (n, h - 1) else None)"
  by (simp_all add: demo_scfg_simp count_sem_def IsValidPort_def)

lemma demo_forwarded:
  "int (length (co_Tunnels (ss_conn s))) < 10 \<Longrightarrow>
   snd (handleForwardRequest demo_scfg count_sem demo_wire (Some (demo_addr 8080))
     (w_marshal_forward demo_wire (''0.0.0.0'', 8080)) s) =
   s\<lparr>ss_tunnels := (ss_tunnels s)(ss_nextTunnel s :=
        new_TunnelInfo demo_scfg count_sem 8080 ''0.0.0.0'' (ss_nextListener s)),
      ss_nextTunnel := Suc (ss_nextTunnel s),
      ss_open := (ss_nextListener s, 8080) # ss_open s, ss_nextListener := Suc (ss_nextListener s),
      ss_conn := (ss_conn s)\<lparr>co_Tunnels := AList.update 8080 (ss_nextTunnel s) (co_Tunnels (ss_conn s))\<rparr>,
      ss_loops := (ss_nextListener s, 8080) # ss_loops s\<rparr>"
  unfolding handleForwardRequest_def demo_msg demo_port Let_def demo_facts(1) prod.case option.case
  by (simp add: demo_facts(3))

lemma demo_run_reach:
  "(relay_trans demo_scfg count_sem demo_wire)\<^sup>*\<^sup>* demo_new (demo_run demo_new demo_events_relay)"
proof -
  let ?e = "Request (demo_forward 8080) (demo_listen 8080)"
  have "event_possible demo_wire demo_new ?e"
    by (simp add: listen_ok_def demo_listen_def demo_port demo_forward_def demo_msg demo_new_def new_session_def)
  then have "relay_trans demo_scfg count_sem demo_wire demo_new (demo_run demo_new [?e])"
    unfolding relay_trans_def by (intro exI [of _ ?e]) (simp add: demo_forward_def)
  moreover have "relay_trans demo_scfg count_sem demo_wire (demo_run demo_new [?e]) (demo_run demo_new demo_events_relay)"
    unfolding relay_trans_def by (intro exI [of _ "UserConnects 0"]) (simp add: demo_events_relay_def)
  ultimately show ?thesis by (rule rtranclp_trans [OF r_into_rtranclp r_into_rtranclp])
qed

text \<open>The session after one and after both events.\<close>

definition demo_tunnel :: "int \<Rightarrow> nat \<Rightarrow> (int \<times> int) TunnelInfo" where
  "demo_tunnel n ln = (new_TunnelInfo demo_scfg count_sem 8080 ''0.0.0.0'' ln)\<lparr>ti_connSem := (100, n),
     ti_State := (if n = 0 then TunnelStateIdle else TunnelStateActive), ti_ActiveConns := of_int n\<rparr>"

definition demo_state :: "(nat \<Rightarrow> (int \<times> int) TunnelInfo) \<Rightarrow> nat \<Rightarrow> (u32 \<times> nat) list \<Rightarrow> (nat \<times> u32) list \<Rightarrow>
    (nat \<times> u32) list \<Rightarrow> task list \<Rightarrow> bool \<Rightarrow> (int \<times> int) session" where
  "demo_state f k ts op ls tasks panic =
     \<lparr>ss_conn = \<lparr>co_ID = ''sess_1'', co_RemoteAddr = ''10.0.0.1:4000'', co_ConnectTime = 1, co_Tunnels = ts,
        co_ClientInfo = zero_ClientInfo\<rparr>,
      ss_tunnels = f, ss_nextTunnel = k, ss_open = op, ss_nextListener = k, ss_loops = ls, ss_tasks = tasks,
      ss_panic = panic\<rparr>"

lemma demo_tunnel_new: "new_TunnelInfo demo_scfg count_sem 8080 ''0.0.0.0'' ln = demo_tunnel 0 ln"
  by (simp add: demo_tunnel_def new_TunnelInfo_def demo_facts)

lemma demo_state_forward:
  "length ts < 10 \<Longrightarrow>
   session_step demo_scfg count_sem demo_wire (demo_state f k ts op ls tasks panic)
     (Request (demo_forward 8080) (demo_listen 8080)) =
   demo_state (f(k := demo_tunnel 0 k)) (Suc k) (AList.update 8080 k ts) ((k, 8080) # op) ((k, 8080) # ls) tasks panic"
  by (simp only: session_step.simps demo_request)
     (subst demo_forwarded, simp_all add: demo_state_def demo_tunnel_new)

lemma demo_state_connect:
  "map_of ls ln = Some 8080 \<Longrightarrow> map_of ts 8080 = Some a \<Longrightarrow> f a = demo_tunnel 0 j \<Longrightarrow>
   session_step demo_scfg count_sem demo_wire (demo_state f k ts op ls tasks panic) (UserConnects ln) =
   demo_state (f(a := demo_tunnel 1 j)) k ts op ls (tasks @ [\<lparr>tk_port = 8080, tk_phase = Spawned\<rparr>]) panic"
  by (simp add: demo_state_def acceptClientConnections_def lookup_tunnel_def demo_tunnel_def demo_facts
      update_tunnel_def Let_def)

lemma demo_state_new: "demo_new = demo_state (\<lambda>_. demo_blank) 0 [] [] [] [] False"
  by (simp add: demo_new_def new_session_def demo_state_def)

lemma demo_run_eq:
  "demo_run demo_new demo_events_relay =
     demo_state ((\<lambda>_. demo_blank)(0 := demo_tunnel 1 0)) 1 [(8080, 0)] [(0, 8080)] [(0, 8080)]
       [\<lparr>tk_port = 8080, tk_phase = Spawned\<rparr>] False"
  by (simp add: demo_events_relay_def demo_state_new demo_state_forward demo_state_connect [where j = 0]
      del: session_step.simps)

lemma demo_run_state:
  "lookup_tunnel 8080 (demo_run demo_new demo_events_relay) = Some 0"
  "live 8080 (demo_run demo_new demo_events_relay) = 1"
  by (simp_all add: demo_run_eq live_def demo_state_def lookup_tunnel_def)



section \<open>Every connection can finish\<close>

fun phase_weight :: "task_phase \<Rightarrow> nat" where
  "phase_weight Spawned = 2"
| "phase_weight (Relaying c) = 1"
| "phase_weight Finished = 0"

definition work_left :: "'s session \<Rightarrow> nat" where
  "work_left s = sum_list (map (phase_weight \<circ> tk_phase) (ss_tasks s))"

lemma sum_list_update_less:
  "i < length xs \<Longrightarrow> f y < f (xs ! i) \<Longrightarrow> sum_list (map f (xs[i := y])) < (sum_list (map f xs) :: nat)"
proof (induction xs arbitrary: i)
  case (Cons x xs)
  then show ?case by (cases i) auto
qed simp

lemma end_task_tasks:
  "ss_tasks (end_task S i tunnel s) = (ss_tasks s)[i := (ss_tasks s ! i)\<lparr>tk_phase := Finished\<rparr>]"
  by (auto simp: end_task_def update_tunnel_def Let_def split: option.split)

lemma work_progress:
  assumes inv: "relay_inv cfg S held cap s" and i: "i < length (ss_tasks s)" "tk_phase (ss_tasks s ! i) \<noteq> Finished"
  shows "\<exists>e. relay_trans cfg S W s (session_step cfg S W s e) \<and> work_left (session_step cfg S W s e) < work_left s"
proof -
  have t: "ss_tasks s ! i \<in> set (ss_tasks s)" using i(1) by simp
  have less: "work_left s' < work_left s"
    if "ss_tasks s' = (ss_tasks s)[i := (ss_tasks s ! i)\<lparr>tk_phase := p\<rparr>]"
      "phase_weight p < phase_weight (tk_phase (ss_tasks s ! i))" for s' :: "'a session" and p
    unfolding work_left_def that(1) using i(1) that(2) by (intro sum_list_update_less) simp_all
  show ?thesis
  proof (cases "tk_phase (ss_tasks s ! i)")
    case Spawned
    have "\<exists>p. ss_tasks (start_task S i s) = (ss_tasks s)[i := (ss_tasks s ! i)\<lparr>tk_phase := p\<rparr>] \<and> phase_weight p < 2"
      using i(1) Spawned by (auto simp: start_task_def end_task_tasks Let_def split: option.split)
    then have "work_left (start_task S i s) < work_left s" using less Spawned by auto
    then show ?thesis
      by (intro exI [of _ "TaskLooksUp i"]) (auto simp: relay_trans_def intro!: exI [of _ "TaskLooksUp i"])
  next
    case (Relaying c)
    then obtain a where "c = Some a"
      using relay_invD(5,6) [OF inv t] i(2) by (metis option.exhaust)
    then have "ss_tasks (task_ends S True i s) = (ss_tasks s)[i := (ss_tasks s ! i)\<lparr>tk_phase := Finished\<rparr>]"
      using i(1) Relaying by (simp add: task_ends_def end_task_tasks)
    then have "work_left (task_ends S True i s) < work_left s" using less Relaying by auto
    then show ?thesis
      by (intro exI [of _ "TaskEnds i"]) (auto simp: relay_trans_def intro!: exI [of _ "TaskEnds i"])
  next
    case Finished
    then show ?thesis using i(2) by simp
  qed
qed

lemma work_can_finish:
  assumes "relay_inv cfg S held cap s" "0 \<le> sc_MaxTunnels cfg"
  shows "\<exists>t. (relay_trans cfg S W)\<^sup>*\<^sup>* s t \<and> relay_inv cfg S held cap t \<and> (\<forall>x \<in> set (ss_tasks t). tk_phase x = Finished)"
  using assms(1)
proof (induction "work_left s" arbitrary: s rule: less_induct)
  case less
  show ?case
  proof (cases "\<exists>i < length (ss_tasks s). tk_phase (ss_tasks s ! i) \<noteq> Finished")
    case False
    then show ?thesis using less.prems by (intro exI [of _ s]) (auto simp: in_set_conv_nth)
  next
    case True
    then obtain e where e: "relay_trans cfg S W s (session_step cfg S W s e)" "work_left (session_step cfg S W s e) < work_left s"
      using work_progress [OF less.prems] by blast
    have "relay_inv cfg S held cap (session_step cfg S W s e)"
      using relay.trans_inv [OF _ e(1)] less.prems assms(2) by blast
    from less.hyps [OF e(2) this] show ?thesis
      using converse_rtranclp_into_rtranclp [of "relay_trans cfg S W", OF e(1)] by blast
  qed
qed



end
