(* ===== verification/Copy_Loop.thy ===== *)
theory Copy_Loop
  imports Tbore_Base "HOL-Library.Sublist"
begin

text \<open>
  The data plane of \<open>src/pkg/server/server.go\<close> and \<open>src/pkg/client/client.go\<close>: the copy loops between a
  user connection and its channel, the two directions of a relayed connection running side by side, the
  idle watchdog, and the buffer pool with its counters.

  A connection's reading half is a state with \<open>Read\<close> (given the buffer's length: the bytes read, an error,
  the state after), its writing half one with \<open>Write\<close> (the number of bytes taken, an error, the state
  after). \<open>reader_laws\<close> and \<open>writer_laws\<close> say what \<open>net.Conn\<close> and \<open>ssh.Channel\<close> promise of them.
\<close>

section \<open>Reading and writing\<close>

datatype io_error = EOF | IOError string

record 'r reader =
  rd_Read :: "nat \<Rightarrow> 'r \<Rightarrow> string \<times> io_error option \<times> 'r"

record 'w writer =
  wr_Write :: "string \<Rightarrow> 'w \<Rightarrow> nat \<times> io_error option \<times> 'w"

text \<open>\<open>pending\<close> are the bytes the peer sent before it ended the stream; a successful read takes some of
  them from the front, a failed one may (an \<open>io.Reader\<close> can return bytes along with an error), and \<open>EOF\<close>
  is reported only when none is left.\<close>

definition reader_laws :: "'r reader \<Rightarrow> ('r \<Rightarrow> string) \<Rightarrow> bool" where
  "reader_laws R pending \<longleftrightarrow>
     (\<forall>n r d r'. 0 < n \<longrightarrow> rd_Read R n r = (d, None, r') \<longrightarrow>
        d \<noteq> [] \<and> length d \<le> n \<and> pending r = d @ pending r') \<and>
     (\<forall>n r d e r'. rd_Read R n r = (d, Some e, r') \<longrightarrow>
        length d \<le> n \<and> pending r = d @ pending r' \<and> (e = EOF \<longrightarrow> pending r' = []))"

definition writer_laws :: "'w writer \<Rightarrow> ('w \<Rightarrow> string) \<Rightarrow> bool" where
  "writer_laws W sent \<longleftrightarrow>
     (\<forall>d w k w'. wr_Write W d w = (k, None, w') \<longrightarrow> k = length d \<and> sent w' = sent w @ d) \<and>
     (\<forall>d w k e w'. wr_Write W d w = (k, Some e, w') \<longrightarrow> k \<le> length d \<and> sent w' = sent w @ take k d)"

section \<open>The copy loops\<close>

abbreviation bufferSize :: nat where "bufferSize \<equiv> 128 * 1024"

text \<open>One turn of the loop: whether it returns, and the two halves after it.\<close>

definition copy_turn :: "'r reader \<Rightarrow> 'w writer \<Rightarrow> nat \<Rightarrow> 'r \<Rightarrow> 'w \<Rightarrow> bool \<times> 'r \<times> 'w" where
  "copy_turn R W n src dst =
     (case rd_Read R n src of
        (d, err, src') \<Rightarrow>
          if err \<noteq> None then (True, src', dst)
          else (case wr_Write W d dst of (k, err', dst') \<Rightarrow> (err' \<noteq> None, src', dst')))"

partial_function (option) copyBuffer ::
  "'r reader \<Rightarrow> 'w writer \<Rightarrow> nat \<Rightarrow> 'r \<Rightarrow> 'w \<Rightarrow> ('r \<times> 'w) option" where
  "copyBuffer R W n src dst =
     (case copy_turn R W n src dst of
        (stop, src', dst') \<Rightarrow> if stop then Some (src', dst') else copyBuffer R W n src' dst')"

text \<open>The client's \<open>copyBuffer\<close> and \<open>copyBufferRW\<close> have the same body.\<close>

definition copyBufferRW :: "'r reader \<Rightarrow> 'w writer \<Rightarrow> nat \<Rightarrow> 'r \<Rightarrow> 'w \<Rightarrow> ('r \<times> 'w) option" where
  "copyBufferRW R W n src dst = copyBuffer R W n src dst"

text \<open>The server's loop also notes the time of each successful read; \<open>now\<close> is the clock's reading when
  the reading half has reached a state.\<close>

definition stamped_turn ::
  "'r reader \<Rightarrow> 'w writer \<Rightarrow> ('r \<Rightarrow> int) \<Rightarrow> nat \<Rightarrow> 'r \<Rightarrow> 'w \<Rightarrow> int \<Rightarrow> bool \<times> 'r \<times> 'w \<times> int" where
  "stamped_turn R W now n src dst act =
     (case rd_Read R n src of
        (d, err, src') \<Rightarrow>
          if err \<noteq> None then (True, src', dst, act)
          else (case wr_Write W d dst of (k, err', dst') \<Rightarrow> (err' \<noteq> None, src', dst', now src')))"

partial_function (option) copyBufferWithTimestamp ::
  "'r reader \<Rightarrow> 'w writer \<Rightarrow> ('r \<Rightarrow> int) \<Rightarrow> nat \<Rightarrow> 'r \<Rightarrow> 'w \<Rightarrow> int \<Rightarrow> ('r \<times> 'w \<times> int) option" where
  "copyBufferWithTimestamp R W now n src dst act =
     (case stamped_turn R W now n src dst act of
        (stop, src', dst', act') \<Rightarrow>
          if stop then Some (src', dst', act') else copyBufferWithTimestamp R W now n src' dst' act')"

lemma stamped_turn_turn:
  "copy_turn R W n src dst = (case stamped_turn R W now n src dst act of (stop, s, d, l) \<Rightarrow> (stop, s, d))"
  by (simp add: copy_turn_def stamped_turn_def split: prod.splits)

section \<open>What is delivered\<close>

lemma copy_turn_pending:
  assumes "reader_laws R pending" "writer_laws W sent" "0 < n" "copy_turn R W n r w = (stop, r', w')"
  shows "\<exists>p q. pending r = p @ q @ pending r' \<and> sent w' = sent w @ p \<and> (\<not> stop \<longrightarrow> p \<noteq> [] \<and> q = [])"
proof -
  obtain d err r1 where rd: "rd_Read R n r = (d, err, r1)" by (rule prod_cases3)
  show ?thesis
  proof (cases err)
    case (Some e)
    then have "pending r = d @ pending r'" "w' = w" stop
      using assms rd by (auto simp: copy_turn_def reader_laws_def)
    then show ?thesis by (intro exI [of _ "[]"] exI [of _ d]) simp
  next
    case None
    obtain k err' w1 where wr: "wr_Write W d w = (k, err', w1)" by (rule prod_cases3)
    have d: "d \<noteq> []" "pending r = d @ pending r1"
      using assms(1,3) rd None unfolding reader_laws_def by blast+
    have res: "stop = (err' \<noteq> None)" "r' = r1" "w' = w1"
      using assms(4) rd wr None by (auto simp: copy_turn_def)
    show ?thesis
    proof (cases err')
      case None
      then have "sent w1 = sent w @ d" using assms(2) wr unfolding writer_laws_def by blast
      then show ?thesis using d res None by (intro exI [of _ d] exI [of _ "[]"]) simp
    next
      case (Some e)
      then have "sent w1 = sent w @ take k d" using assms(2) wr unfolding writer_laws_def by blast
      then show ?thesis using d res Some by (intro exI [of _ "take k d"] exI [of _ "drop k d"]) simp
    qed
  qed
qed

text \<open>Every turn that goes on takes bytes off the stream, so the loop ends.\<close>

lemma copyBuffer_prefix:
  assumes "reader_laws R pending" "writer_laws W sent" "0 < n"
  shows "\<exists>r' w' p q. copyBuffer R W n r w = Some (r', w') \<and> pending r = p @ q @ pending r' \<and> sent w' = sent w @ p"
proof (induction "length (pending r)" arbitrary: r w rule: less_induct)
  case less
  obtain stop r1 w1 where turn: "copy_turn R W n r w = (stop, r1, w1)" by (rule prod_cases3)
  obtain p q where pq: "pending r = p @ q @ pending r1" "sent w1 = sent w @ p" "\<not> stop \<longrightarrow> p \<noteq> [] \<and> q = []"
    using copy_turn_pending [OF assms turn] by blast
  show ?case
  proof (cases stop)
    case True
    then show ?thesis using pq by (subst copyBuffer.simps) (auto simp: turn)
  next
    case False
    then have "length (pending r1) < length (pending r)" using pq by simp
    from less [OF this, of w1] obtain r' w' p' q' where
      "copyBuffer R W n r1 w1 = Some (r', w')" "pending r1 = p' @ q' @ pending r'" "sent w' = sent w1 @ p'"
      by blast
    then show ?thesis
      using pq False by (subst copyBuffer.simps) (auto simp: turn intro!: exI [of _ "p @ p'"])
  qed
qed

lemma copyBuffer_complete:
  assumes laws: "reader_laws R pending" "writer_laws W sent" "0 < n"
    and clean: "\<And>r d e r'. rd_Read R n r = (d, Some e, r') \<Longrightarrow> e = EOF \<and> d = []" "\<And>d w. fst (snd (wr_Write W d w)) = None"
  shows "\<exists>r' w'. copyBuffer R W n r w = Some (r', w') \<and> sent w' = sent w @ pending r"
proof (induction "length (pending r)" arbitrary: r w rule: less_induct)
  case less
  obtain d err r1 where rd: "rd_Read R n r = (d, err, r1)" by (rule prod_cases3)
  obtain k err' w1 where wr: "wr_Write W d w = (k, err', w1)" by (rule prod_cases3)
  show ?case
  proof (cases err)
    case (Some e)
    then have "pending r = []" using laws(1) clean(1) [of r d e r1] rd unfolding reader_laws_def by fastforce
    then show ?thesis by (subst copyBuffer.simps) (simp add: copy_turn_def rd Some)
  next
    case None
    have d: "d \<noteq> []" "pending r = d @ pending r1"
      using laws(1,3) rd None unfolding reader_laws_def by blast+
    have w: "err' = None" "sent w1 = sent w @ d"
      using laws(2) clean(2) [of d w] wr unfolding writer_laws_def by auto
    have "length (pending r1) < length (pending r)" using d by simp
    from less [OF this, of w1] show ?thesis
      using d w by (subst copyBuffer.simps) (auto simp: copy_turn_def rd wr None)
  qed
qed

text \<open>(C8) The copy loop ends and delivers a prefix: for every stream the peer ends or that fails, it
  returns, and what it wrote is a prefix of what the peer sent, in order and without gaps; when
  nothing but the end of the stream stops it, reported without bytes, it wrote all of it.\<close>

theorem copyBuffer_delivers:
  assumes "reader_laws R pending" "writer_laws W sent"
  shows "\<exists>r' w' p. copyBuffer R W bufferSize r w = Some (r', w') \<and> sent w' = sent w @ p \<and> prefix p (pending r) \<and>
    ((\<forall>r d e r'. rd_Read R bufferSize r = (d, Some e, r') \<longrightarrow> e = EOF \<and> d = []) \<and> (\<forall>d w. fst (snd (wr_Write W d w)) = None) \<longrightarrow>
       p = pending r)"
proof -
  obtain r' w' p q where c: "copyBuffer R W bufferSize r w = Some (r', w')" "pending r = p @ q @ pending r'"
      "sent w' = sent w @ p"
    using copyBuffer_prefix [OF assms, of bufferSize r w] by auto
  have "p = pending r" if "\<forall>r d e r'. rd_Read R bufferSize r = (d, Some e, r') \<longrightarrow> e = EOF \<and> d = []"
    "\<forall>d w. fst (snd (wr_Write W d w)) = None"
    using copyBuffer_complete [OF assms, of bufferSize r w] that c by auto
  with c show ?thesis by (intro exI [of _ r'] exI [of _ w'] exI [of _ p]) auto
qed

text \<open>Bytes that a read returns along with an error are lost, although they are off the stream: every loop
  looks at the error first.\<close>

theorem bytes_with_error_lost:
  assumes "reader_laws R pending" "rd_Read R n r = (d, Some e, r')"
  shows "copyBuffer R W n r w = Some (r', w) \<and> pending r = d @ pending r'"
  using assms by (subst copyBuffer.simps) (auto simp: copy_turn_def reader_laws_def)

text \<open>A stream of chunks and a log are such halves.\<close>

definition chunk_reader :: "string list reader" where
  "chunk_reader = \<lparr>rd_Read = (\<lambda>n cs.
     case dropWhile (\<lambda>c. c = []) cs of
       [] \<Rightarrow> ([], Some EOF, [])
     | c # cs' \<Rightarrow> (take n c, None, drop n c # cs'))\<rparr>"

definition log_writer :: "string writer" where
  "log_writer = \<lparr>wr_Write = (\<lambda>d w. (length d, None, w @ d))\<rparr>"

lemma skip_empty:
  "concat cs = concat (dropWhile (\<lambda>c. c = []) cs)"
  "dropWhile (\<lambda>c. c = []) cs = c # cs' \<Longrightarrow> c \<noteq> []"
  by (induction cs) (auto split: if_splits)

lemma chunk_reader_laws: "reader_laws chunk_reader concat"
  unfolding reader_laws_def
proof (intro conjI allI impI)
  fix n r d r' assume n: "0 < n" and rd: "rd_Read chunk_reader n r = (d, None, r')"
  then obtain c cs where c: "dropWhile (\<lambda>c. c = []) r = c # cs" and d: "d = take n c" "r' = drop n c # cs"
    by (auto simp: chunk_reader_def split: list.splits)
  have "c \<noteq> []" by (rule skip_empty(2) [OF c])
  then show "d \<noteq> []" "length d \<le> n" "concat r = d @ concat r'"
    using n skip_empty(1) [of r] unfolding c d by simp_all
next
  fix n r d e r' assume "rd_Read chunk_reader n r = (d, Some e, r')"
  then have "dropWhile (\<lambda>c. c = []) r = []" "d = []" "r' = []"
    by (simp_all add: chunk_reader_def split: list.splits)
  with skip_empty(1) [of r] show "length d \<le> n" "concat r = d @ concat r'" "concat r' = []"
    by simp_all
qed

lemma log_writer_laws: "writer_laws log_writer (\<lambda>w. w)"
  by (auto simp: writer_laws_def log_writer_def)

lemma clean_demo: "rd_Read chunk_reader n r = (d, Some e, r') \<Longrightarrow> e = EOF \<and> d = []" "fst (snd (wr_Write log_writer d w)) = None"
  by (auto simp: chunk_reader_def log_writer_def split: list.splits)

theorem copyBuffer_delivers_witness:
  "\<exists>r'. copyBuffer chunk_reader log_writer bufferSize [''GET '', [], ''/''] [] = Some (r', ''GET /'')"
  using copyBuffer_delivers [OF chunk_reader_laws log_writer_laws, of "[''GET '', [], ''/'']" "[]"]
    clean_demo by (auto simp del: split_paired_All)

section \<open>The server's loop is the plain loop with a clock\<close>

lemma stamped_imp_copy:
  "copyBufferWithTimestamp R W now n r w act = Some y \<Longrightarrow> copyBuffer R W n r w = Some (fst y, fst (snd y))"
proof (induction rule: copyBufferWithTimestamp.raw_induct [rotated, consumes 1])
  case (1 loop R W now n r w act y)
  then show ?case
    by (subst copyBuffer.simps, unfold stamped_turn_turn [of R W n r w now act])
       (auto split: prod.splits if_splits)
qed

lemma copy_imp_stamped:
  "copyBuffer R W n r w = Some y \<Longrightarrow> \<exists>act'. copyBufferWithTimestamp R W now n r w act = Some (fst y, snd y, act')"
proof (induction arbitrary: act rule: copyBuffer.raw_induct [rotated, consumes 1])
  case (1 loop R W n r w y)
  then show ?case
    by (subst copyBufferWithTimestamp.simps, unfold stamped_turn_turn [of R W n r w now act])
       (auto split: prod.splits if_splits)
qed

text \<open>(C18) The server's timestamping loop and the plain copy loop are equivalent: for any reading and
  writing half (failing at any point, or never ending) one returns exactly when the other does, with
  the same halves; the clock only feeds the watchdog.\<close>

theorem timestamp_loop_equivalent:
  "map_option (\<lambda>(r, w, act). (r, w)) (copyBufferWithTimestamp R W now n r w act) = copyBuffer R W n r w"
proof (cases "copyBuffer R W n r w")
  case None
  then show ?thesis
    using stamped_imp_copy [of R W now n r w act] by (cases "copyBufferWithTimestamp R W now n r w act") auto
next
  case (Some y)
  then show ?thesis
    using copy_imp_stamped [of R W n r w y now act] by (cases y) auto
qed

section \<open>Both directions at once\<close>

text \<open>\<open>handleClientConnection\<close> (and \<open>handleRemoteConnection\<close> and \<open>handleServerChannels\<close> in the client) run
  a loop per direction, each in its goroutine: the turns interleave. When the loop that reads one side
  ends, the other side's writing half is closed (\<open>CloseWrite\<close>), and the connection is closed when both
  have ended (\<open>wg.Wait\<close>).\<close>

record ('a, 'b, 'c, 'd) duplex =
  dx_userR :: 'a
  dx_userW :: 'b
  dx_chR :: 'c
  dx_chW :: 'd
  dx_act :: int
  dx_downDone :: bool      \<comment> \<open>the loop from the channel to the user has returned\<close>
  dx_upDone :: bool        \<comment> \<open>the loop from the user to the channel has returned\<close>
  dx_userEOF :: bool       \<comment> \<open>the user's writing half is closed\<close>
  dx_chEOF :: bool

record ('a, 'b, 'c, 'd) duplex_env =
  de_userR :: "'a reader"
  de_userW :: "'b writer"
  de_chR :: "'c reader"
  de_chW :: "'d writer"
  de_nowUser :: "'a \<Rightarrow> int"
  de_nowCh :: "'c \<Rightarrow> int"

definition duplex_start :: "'a \<Rightarrow> 'b \<Rightarrow> 'c \<Rightarrow> 'd \<Rightarrow> int \<Rightarrow> ('a, 'b, 'c, 'd) duplex" where
  "duplex_start ur uw cr cw now =
     \<lparr>dx_userR = ur, dx_userW = uw, dx_chR = cr, dx_chW = cw, dx_act = now, dx_downDone = False,
      dx_upDone = False, dx_userEOF = False, dx_chEOF = False\<rparr>"

inductive duplex_step ::
  "('a, 'b, 'c, 'd) duplex_env \<Rightarrow> nat \<Rightarrow> ('a, 'b, 'c, 'd) duplex \<Rightarrow> ('a, 'b, 'c, 'd) duplex \<Rightarrow> bool"
  for D n where
  Down: "\<not> dx_downDone s \<Longrightarrow>
    stamped_turn (de_chR D) (de_userW D) (de_nowCh D) n (dx_chR s) (dx_userW s) (dx_act s) = (stop, r, w, act) \<Longrightarrow>
    duplex_step D n s (s\<lparr>dx_chR := r, dx_userW := w, dx_act := act, dx_downDone := stop, dx_userEOF := stop\<rparr>)"
| Up: "\<not> dx_upDone s \<Longrightarrow>
    stamped_turn (de_userR D) (de_chW D) (de_nowUser D) n (dx_userR s) (dx_chW s) (dx_act s) = (stop, r, w, act) \<Longrightarrow>
    duplex_step D n s (s\<lparr>dx_userR := r, dx_chW := w, dx_act := act, dx_upDone := stop, dx_chEOF := stop\<rparr>)"

inductive_cases duplex_stepE: "duplex_step D n s t"

text \<open>Where one direction stands: what is left of its loop, or that it returned.\<close>

definition dir_inv :: "'r reader \<Rightarrow> 'w writer \<Rightarrow> nat \<Rightarrow> 'r \<Rightarrow> 'w \<Rightarrow> 'r \<Rightarrow> 'w \<Rightarrow> bool \<Rightarrow> bool \<Rightarrow> bool" where
  "dir_inv R W n r0 w0 r w done eof \<longleftrightarrow>
     eof = done \<and> copyBuffer R W n r0 w0 = (if done then Some (r, w) else copyBuffer R W n r w)"

lemma dir_inv_turn:
  assumes "dir_inv R W n r0 w0 r w False e" "stamped_turn R W now n r w act = (stop, r', w', act')"
  shows "dir_inv R W n r0 w0 r' w' stop stop"
proof -
  have "copy_turn R W n r w = (stop, r', w')"
    unfolding stamped_turn_turn [of R W n r w now act] assms(2) by simp
  then have "copyBuffer R W n r w = (if stop then Some (r', w') else copyBuffer R W n r' w')"
    by (subst copyBuffer.simps) simp
  with assms(1) show ?thesis by (simp add: dir_inv_def)
qed

definition duplex_inv ::
  "('a, 'b, 'c, 'd) duplex_env \<Rightarrow> nat \<Rightarrow> 'a \<times> 'b \<times> 'c \<times> 'd \<Rightarrow> ('a, 'b, 'c, 'd) duplex \<Rightarrow> bool" where
  "duplex_inv D n x s \<longleftrightarrow>
     (case x of (ur, uw, cr, cw) \<Rightarrow>
        dir_inv (de_chR D) (de_userW D) n cr uw (dx_chR s) (dx_userW s) (dx_downDone s) (dx_userEOF s) \<and>
        dir_inv (de_userR D) (de_chW D) n ur cw (dx_userR s) (dx_chW s) (dx_upDone s) (dx_chEOF s))"

interpretation duplex: transition_system
  "\<lambda>s. case x of (ur, uw, cr, cw) \<Rightarrow> \<exists>now. s = duplex_start ur uw cr cw now" "duplex_step D n" "duplex_inv D n x"
  for D n x
proof (unfold_locales, goal_cases)
  case (1 s)
  then show ?case by (auto simp: duplex_inv_def duplex_start_def dir_inv_def split: prod.splits)
next
  case (2 s t)
  from 2(2,1) show ?case
    by (cases rule: duplex_step.cases) (auto simp: duplex_inv_def split: prod.splits intro: dir_inv_turn)
qed



section \<open>The idle watchdog\<close>

text \<open>\<open>ConnTimeout\<close> negative means the default of 300 seconds, and 0 that there is no watchdog; otherwise a
  ticker compares, each second, the time since the last successful read with the timeout.
  (\<open>timeout.Seconds()\<close> is a float: for the whole seconds \<open>handleTunnelInfoRequest\<close> stores, the
  truncated quotient.)\<close>

abbreviation defaultConnTimeout :: duration where
  "defaultConnTimeout \<equiv> 300 * second"

definition effective_timeout :: "duration \<Rightarrow> duration" where
  "effective_timeout t = (let timeout = t in if timeout < 0 then defaultConnTimeout else timeout)"

datatype conn_event =
    Activity int      \<comment> \<open>a read returned data, at this Unix time\<close>
  | Tick int

record watch =
  wd_lastActivity :: int
  wd_closed :: bool

definition watch_start :: "int \<Rightarrow> watch" where
  "watch_start now = \<lparr>wd_lastActivity = now, wd_closed = False\<rparr>"

fun watch_step :: "duration \<Rightarrow> watch \<Rightarrow> conn_event \<Rightarrow> watch" where
  "watch_step connTimeout w (Activity t) = (if wd_closed w then w else w\<lparr>wd_lastActivity := t\<rparr>)"
| "watch_step connTimeout w (Tick t) =
     (let timeout = effective_timeout connTimeout
      in if timeout > 0 \<and> \<not> wd_closed w \<and> t - wd_lastActivity w \<ge> timeout div second
         then w\<lparr>wd_closed := True\<rparr> else w)"

fun last_activity :: "int \<Rightarrow> conn_event list \<Rightarrow> int" where
  "last_activity t0 [] = t0"
| "last_activity t0 (Activity t # es) = last_activity t es"
| "last_activity t0 (Tick t # es) = last_activity t0 es"

lemma last_activity_snoc:
  "last_activity t0 (es @ [Activity t]) = t" "last_activity t0 (es @ [Tick t]) = last_activity t0 es"
  by (induction t0 es rule: last_activity.induct) simp_all

text \<open>The connection was seen idle for \<open>n\<close> seconds at some tick.\<close>

definition idle_tick :: "int \<Rightarrow> int \<Rightarrow> conn_event list \<Rightarrow> bool" where
  "idle_tick n t0 es \<longleftrightarrow> (\<exists>pre t post. es = pre @ Tick t # post \<and> n \<le> t - last_activity t0 pre)"

lemma idle_tick_snoc:
  "idle_tick n t0 (es @ [e]) \<longleftrightarrow>
     idle_tick n t0 es \<or> (\<exists>t. e = Tick t \<and> n \<le> t - last_activity t0 es)"
proof
  assume "idle_tick n t0 (es @ [e])"
  then obtain pre t post where "es @ [e] = pre @ Tick t # post" "n \<le> t - last_activity t0 pre"
    unfolding idle_tick_def by blast
  then show "idle_tick n t0 es \<or> (\<exists>t. e = Tick t \<and> n \<le> t - last_activity t0 es)"
    by (cases post rule: rev_cases) (auto simp: idle_tick_def)
next
  assume "idle_tick n t0 es \<or> (\<exists>t. e = Tick t \<and> n \<le> t - last_activity t0 es)"
  then show "idle_tick n t0 (es @ [e])"
  proof
    assume "idle_tick n t0 es"
    then obtain pre t post where "es = pre @ Tick t # post" "n \<le> t - last_activity t0 pre"
      unfolding idle_tick_def by blast
    then show ?thesis unfolding idle_tick_def by (intro exI [of _ pre] exI [of _ t] exI [of _ "post @ [e]"]) simp
  qed (auto simp: idle_tick_def)
qed

lemma watch_run:
  fixes c t0 es
  defines "w \<equiv> foldl (watch_step c) (watch_start t0) es"
    and "closed \<equiv> 0 < effective_timeout c \<and> idle_tick (effective_timeout c div second) t0 es"
  shows "wd_closed w = closed" "\<not> closed \<Longrightarrow> wd_lastActivity w = last_activity t0 es"
proof -
  have "wd_closed w = closed \<and> (\<not> closed \<longrightarrow> wd_lastActivity w = last_activity t0 es)"
    unfolding w_def closed_def
  proof (induction es rule: rev_induct)
    case Nil
    then show ?case by (simp add: watch_start_def idle_tick_def)
  next
    case (snoc e es)
    then show ?case
      by (cases e) (auto simp: Let_def last_activity_snoc idle_tick_snoc)
  qed
  then show "wd_closed w = closed" "\<not> closed \<Longrightarrow> wd_lastActivity w = last_activity t0 es" by blast+
qed

text \<open>(C28) The watchdog closes exactly the idle connections: with a tunnel timeout of \<open>n > 0\<close> seconds (300
  when the client sent a negative one) a connection is closed if and only if at some tick at least \<open>n\<close>
  seconds had passed since the last successful read in either direction, or since the start; with
  timeout 0 it is never closed.\<close>

theorem watchdog_closes_idle:
  "let c = seconds n
   in wd_closed (foldl (watch_step c) (watch_start t0) es) =
        (if c = 0 then False else idle_tick (if c < 0 then 300 else c div second) t0 es)"
  by (simp add: watch_run(1) effective_timeout_def Let_def)

section \<open>The buffer pool\<close>

text \<open>\<open>sync.Pool\<close> keeps returned buffers and hands one of them out (\<open>pick\<close>), or makes a new one: with a
  \<open>New\<close> function it never returns nil. Buffers are numbered.\<close>

record buffer_pool =
  bp_free :: "nat list"
  bp_next :: nat
  bp_getCount :: "64 word"
  bp_putCount :: "64 word"
  bp_allocCount :: "64 word"

definition pool_Get :: "nat option \<Rightarrow> buffer_pool \<Rightarrow> nat option \<times> buffer_pool" where
  "pool_Get pick p =
     (case pick of
        Some b \<Rightarrow> if b \<in> set (bp_free p) then (Some b, p\<lparr>bp_free := remove1 b (bp_free p)\<rparr>)
                  else (Some (bp_next p), p\<lparr>bp_next := Suc (bp_next p)\<rparr>)
      | None \<Rightarrow> (Some (bp_next p), p\<lparr>bp_next := Suc (bp_next p)\<rparr>))"

definition getBuffer :: "nat option \<Rightarrow> buffer_pool \<Rightarrow> nat \<times> buffer_pool" where
  "getBuffer pick p =
     (case pool_Get pick p of
        (None, p1) \<Rightarrow> (bp_next p1, p1\<lparr>bp_next := Suc (bp_next p1), bp_allocCount := bp_allocCount p1 + 1\<rparr>)
      | (Some b, p1) \<Rightarrow> (b, p1\<lparr>bp_getCount := bp_getCount p1 + 1\<rparr>))"

definition putBuffer :: "nat \<Rightarrow> buffer_pool \<Rightarrow> buffer_pool" where
  "putBuffer b p = p\<lparr>bp_putCount := bp_putCount p + 1, bp_free := b # bp_free p\<rparr>"

definition getPoolStats :: "buffer_pool \<Rightarrow> 64 word \<times> 64 word \<times> 64 word" where
  "getPoolStats p = (bp_getCount p, bp_putCount p, bp_allocCount p)"

definition new_pool :: buffer_pool where
  "new_pool = \<lparr>bp_free = [], bp_next = 0, bp_getCount = 0, bp_putCount = 0, bp_allocCount = 0\<rparr>"

text \<open>The pool with the buffers the copy loops hold: a loop takes one and returns it when it ends
  (\<open>i\<close> is its place among the held ones).\<close>

datatype pool_event = Take "nat option" | GiveBack nat

fun pool_step :: "buffer_pool \<times> nat list \<Rightarrow> pool_event \<Rightarrow> buffer_pool \<times> nat list" where
  "pool_step (p, held) (Take pick) = (case getBuffer pick p of (b, p') \<Rightarrow> (p', held @ [b]))"
| "pool_step (p, held) (GiveBack i) =
     (if i < length held then (putBuffer (held ! i) p, take i held @ drop (Suc i) held) else (p, held))"

definition pool_inv :: "buffer_pool \<times> nat list \<Rightarrow> bool" where
  "pool_inv s \<longleftrightarrow>
     (case s of (p, held) \<Rightarrow>
        distinct (held @ bp_free p) \<and> (\<forall>b \<in> set (held @ bp_free p). b < bp_next p) \<and>
        bp_getCount p - bp_putCount p = of_nat (length held) \<and> bp_allocCount p = 0)"

lemma pool_take:
  assumes "pool_inv (p, held)"
  shows "pool_inv (pool_step (p, held) (Take pick))"
proof (cases "\<exists>b. pick = Some b \<and> b \<in> set (bp_free p)")
  case True
  then show ?thesis
    using assms by (auto simp: pool_inv_def getBuffer_def pool_Get_def algebra_simps dest: notin_set_remove1 [rotated]) blast
next
  case False
  then have "getBuffer pick p = (bp_next p, p\<lparr>bp_next := Suc (bp_next p), bp_getCount := bp_getCount p + 1\<rparr>)"
    by (auto simp: getBuffer_def pool_Get_def split: option.splits)
  then show ?thesis
    using assms by (auto simp: pool_inv_def algebra_simps less_Suc_eq)
qed

lemma pool_give_back:
  assumes "pool_inv (p, held)"
  shows "pool_inv (pool_step (p, held) (GiveBack i))"
proof (cases "i < length held")
  case True
  have h: "held = take i held @ held ! i # drop (Suc i) held"
    by (rule id_take_nth_drop [OF True])
  define a b d where "a = take i held" "b = held ! i" "d = drop (Suc i) held"
  have "pool_inv (p, a @ b # d)" using assms h a_b_d_def by simp
  then have "pool_inv (putBuffer b p, a @ d)"
    by (auto simp: pool_inv_def putBuffer_def algebra_simps)
  then show ?thesis using True by (simp add: a_b_d_def)
qed (use assms in simp)

interpretation pool: event_machine pool_step "\<lambda>_. True" pool_inv
  using pool_take pool_give_back by unfold_locales (metis pool_event.exhaust surj_pair)

text \<open>(C29) No two copy loops share a buffer: whatever the order in which loops take and return buffers and
  whichever pooled buffer is handed out, the held buffers are pairwise different and none of them is
  in the pool; gets minus puts is the number of loops that hold one, so they are equal when all have
  ended; and the allocation counter never moves, since the pool makes its own buffers.\<close>

theorem buffers_not_shared:
  "case foldl pool_step (new_pool, []) es of (p, held) \<Rightarrow>
     distinct held \<and> set held \<inter> set (bp_free p) = {} \<and>
     (case getPoolStats p of (gets, puts, allocs) \<Rightarrow> gets - puts = of_nat (length held) \<and> allocs = 0)"
proof -
  have "pool_inv (foldl pool_step (new_pool, []) es)"
    by (rule pool.run_inv) (simp_all add: pool_inv_def new_pool_def list_all_iff)
  then show ?thesis by (auto simp: pool_inv_def getPoolStats_def)
qed

end
