(* ===== verification/Stream_Path.thy ===== *)
theory Stream_Path
  imports Copy_Loop
begin

text \<open>
  A user's bytes on their whole way: the loop of \<open>handleClientConnection\<close> (\<open>src/pkg/server/server.go\<close>) that
  copies from the user's connection to the SSH channel, and the loop of \<open>handleServerChannels\<close>
  (\<open>src/pkg/client/client.go\<close>) that copies from the channel to the local service, running at the same
  time on the two machines; and the way back, where the client's loop comes first and the server's
  second. What lies between is one direction of an SSH channel, third-party code and a parameter:
  \<open>channel_laws\<close> says that it is an ordered stream.
\<close>

section \<open>A channel between two loops\<close>

record 'q channel =
  ch_writer :: "'q writer"
  ch_reader :: "'q reader"
  ch_ready :: "'q \<Rightarrow> bool"          \<comment> \<open>a read returns now, instead of waiting\<close>
  ch_CloseWrite :: "'q \<Rightarrow> 'q"

text \<open>\<open>content\<close> are the bytes written and not read yet, \<open>closed\<close> whether the writing end was closed. A read
  waits only while there are no bytes and the channel is open; the end of the stream is reported only
  after the close.\<close>

definition channel_laws :: "'q channel \<Rightarrow> ('q \<Rightarrow> string) \<Rightarrow> ('q \<Rightarrow> bool) \<Rightarrow> bool" where
  "channel_laws C content closed \<longleftrightarrow>
     reader_laws (ch_reader C) content \<and> writer_laws (ch_writer C) content \<and>
     (\<forall>q. content q \<noteq> [] \<or> closed q \<longrightarrow> ch_ready C q) \<and>
     (\<forall>n q d e q'. rd_Read (ch_reader C) n q = (d, e, q') \<longrightarrow>
        closed q' = closed q \<and> (ch_ready C q \<and> e = Some EOF \<longrightarrow> closed q)) \<and>
     (\<forall>d q k e q'. wr_Write (ch_writer C) d q = (k, e, q') \<longrightarrow> closed q' = closed q) \<and>
     (\<forall>q. content (ch_CloseWrite C q) = content q \<and> closed (ch_CloseWrite C q))"

record ('u, 'q, 'l) path =
  pa_source :: 'u
  pa_channel :: 'q
  pa_sink :: 'l
  pa_inDone :: bool       \<comment> \<open>the loop into the channel has returned and closed it\<close>
  pa_outDone :: bool      \<comment> \<open>the loop out of the channel has returned and closed the sink's writing half\<close>

record ('u, 'q, 'l) path_env =
  pe_source :: "'u reader"
  pe_channel :: "'q channel"
  pe_sink :: "'l writer"

definition path_start :: "'u \<Rightarrow> 'q \<Rightarrow> 'l \<Rightarrow> ('u, 'q, 'l) path" where
  "path_start u q l = \<lparr>pa_source = u, pa_channel = q, pa_sink = l, pa_inDone = False, pa_outDone = False\<rparr>"

inductive path_step :: "('u, 'q, 'l) path_env \<Rightarrow> nat \<Rightarrow> ('u, 'q, 'l) path \<Rightarrow> ('u, 'q, 'l) path \<Rightarrow> bool" for P n where
  In: "\<not> pa_inDone s \<Longrightarrow>
    copy_turn (pe_source P) (ch_writer (pe_channel P)) n (pa_source s) (pa_channel s) = (stop, u, q) \<Longrightarrow>
    path_step P n s (s\<lparr>pa_source := u, pa_channel := (if stop then ch_CloseWrite (pe_channel P) q else q),
      pa_inDone := stop\<rparr>)"
| Out: "\<not> pa_outDone s \<Longrightarrow> ch_ready (pe_channel P) (pa_channel s) \<Longrightarrow>
    copy_turn (ch_reader (pe_channel P)) (pe_sink P) n (pa_channel s) (pa_sink s) = (stop, q, l) \<Longrightarrow>
    path_step P n s (s\<lparr>pa_channel := q, pa_sink := l, pa_outDone := stop\<rparr>)"

definition path_laws ::
  "('u, 'q, 'l) path_env \<Rightarrow> ('u \<Rightarrow> string) \<Rightarrow> ('q \<Rightarrow> string) \<Rightarrow> ('q \<Rightarrow> bool) \<Rightarrow> ('l \<Rightarrow> string) \<Rightarrow> bool" where
  "path_laws P pending content closed sent \<longleftrightarrow>
     reader_laws (pe_source P) pending \<and> channel_laws (pe_channel P) content closed \<and> writer_laws (pe_sink P) sent"

text \<open>Nothing breaks: reads only fail at the end of the stream, without bytes, and writes never do.\<close>

definition unbroken :: "('u, 'q, 'l) path_env \<Rightarrow> nat \<Rightarrow> bool" where
  "unbroken P n \<longleftrightarrow>
     (\<forall>u d e u'. rd_Read (pe_source P) n u = (d, Some e, u') \<longrightarrow> e = EOF \<and> d = []) \<and>
     (\<forall>d q. fst (snd (wr_Write (ch_writer (pe_channel P)) d q)) = None) \<and>
     (\<forall>q d e q'. ch_ready (pe_channel P) q \<longrightarrow> rd_Read (ch_reader (pe_channel P)) n q = (d, Some e, q') \<longrightarrow>
        e = EOF \<and> d = []) \<and>
     (\<forall>d l. fst (snd (wr_Write (pe_sink P) d l)) = None)"

section \<open>What a turn of either loop does\<close>

lemma channel_lawsD:
  assumes "channel_laws C content closed"
  shows "reader_laws (ch_reader C) content" "writer_laws (ch_writer C) content"
    and "content q \<noteq> [] \<or> closed q \<Longrightarrow> ch_ready C q"
    and "content (ch_CloseWrite C q) = content q" "closed (ch_CloseWrite C q)"
    and "rd_Read (ch_reader C) n q = (d, e, q') \<Longrightarrow> closed q' = closed q"
    and "rd_Read (ch_reader C) n q = (d, e, q') \<Longrightarrow> ch_ready C q \<Longrightarrow> e = Some EOF \<Longrightarrow> closed q"
    and "wr_Write (ch_writer C) d q = (k, e, q') \<Longrightarrow> closed q' = closed q"
  using assms unfolding channel_laws_def by blast+

lemma turn_in:
  assumes laws: "path_laws P pending content closed sent" and "0 < n"
    and turn: "copy_turn (pe_source P) (ch_writer (pe_channel P)) n u q = (stop, u', q')"
  shows "closed q' = closed q"
    and "\<exists>p x. pending u = p @ x @ pending u' \<and> content q' = content q @ p \<and> (\<not> stop \<longrightarrow> p \<noteq> [] \<and> x = [])"
    and "unbroken P n \<Longrightarrow> stop \<Longrightarrow> pending u = [] \<and> content q' = content q"
proof -
  have src: "reader_laws (pe_source P) pending" and ch: "channel_laws (pe_channel P) content closed"
    using laws by (simp_all add: path_laws_def)
  show "closed q' = closed q"
    using turn channel_lawsD(8) [OF ch] by (auto simp: copy_turn_def split: prod.splits if_splits)
  show "\<exists>p x. pending u = p @ x @ pending u' \<and> content q' = content q @ p \<and> (\<not> stop \<longrightarrow> p \<noteq> [] \<and> x = [])"
    by (rule copy_turn_pending [OF src channel_lawsD(2) [OF ch] assms(2) turn])
  assume ok: "unbroken P n" and stop
  obtain d err u1 where rd: "rd_Read (pe_source P) n u = (d, err, u1)" by (rule prod_cases3)
  have "fst (snd (wr_Write (ch_writer (pe_channel P)) d q)) = None" using ok by (simp add: unbroken_def)
  then obtain e where e: "err = Some e" "q' = q"
    using turn rd \<open>stop\<close> by (cases err) (auto simp: copy_turn_def split: prod.splits)
  then have "e = EOF" "d = []" using ok rd by (auto simp: unbroken_def)
  then show "pending u = [] \<and> content q' = content q"
    using src rd e unfolding reader_laws_def by fastforce
qed

lemma turn_out:
  assumes laws: "path_laws P pending content closed sent" and "0 < n" and ready: "ch_ready (pe_channel P) q"
    and turn: "copy_turn (ch_reader (pe_channel P)) (pe_sink P) n q l = (stop, q', l')"
  shows "closed q' = closed q"
    and "\<exists>p x. content q = p @ x @ content q' \<and> sent l' = sent l @ p \<and> (\<not> stop \<longrightarrow> p \<noteq> [] \<and> x = [])"
    and "unbroken P n \<Longrightarrow> stop \<Longrightarrow> content q = [] \<and> closed q \<and> sent l' = sent l"
proof -
  have snk: "writer_laws (pe_sink P) sent" and ch: "channel_laws (pe_channel P) content closed"
    using laws by (simp_all add: path_laws_def)
  obtain d err q1 where rd: "rd_Read (ch_reader (pe_channel P)) n q = (d, err, q1)" by (rule prod_cases3)
  have q1: "q' = q1" using turn rd by (auto simp: copy_turn_def split: prod.splits if_splits)
  then show "closed q' = closed q" using channel_lawsD(6) [OF ch rd] by simp
  show "\<exists>p x. content q = p @ x @ content q' \<and> sent l' = sent l @ p \<and> (\<not> stop \<longrightarrow> p \<noteq> [] \<and> x = [])"
    by (rule copy_turn_pending [OF channel_lawsD(1) [OF ch] snk assms(2) turn])
  assume ok: "unbroken P n" and stop
  have "fst (snd (wr_Write (pe_sink P) d l)) = None" using ok by (simp add: unbroken_def)
  then obtain e where e: "err = Some e" "l' = l"
    using turn rd \<open>stop\<close> by (cases err) (auto simp: copy_turn_def split: prod.splits)
  then have "e = EOF" "d = []" using ok rd ready by (auto simp: unbroken_def)
  then show "content q = [] \<and> closed q \<and> sent l' = sent l"
    using channel_lawsD(1) [OF ch] channel_lawsD(7) [OF ch rd ready] rd e unfolding reader_laws_def by fastforce
qed

section \<open>Every byte on its way\<close>

text \<open>\<open>U\<close> are the bytes of the source and \<open>L\<close> what the sink had got before: what has arrived since, what is in
  the channel and what the source still holds make up \<open>U\<close>, as long as the loops run.\<close>

definition path_inv ::
  "('u, 'q, 'l) path_env \<Rightarrow> nat \<Rightarrow> ('u \<Rightarrow> string) \<Rightarrow> ('q \<Rightarrow> string) \<Rightarrow> ('q \<Rightarrow> bool) \<Rightarrow> ('l \<Rightarrow> string) \<Rightarrow>
     string \<Rightarrow> string \<Rightarrow> ('u, 'q, 'l) path \<Rightarrow> bool" where
  "path_inv P n pending content closed sent U L s \<longleftrightarrow>
     (closed (pa_channel s) \<longleftrightarrow> pa_inDone s) \<and>
     (\<exists>p x. U = p @ x \<and> sent (pa_sink s) = L @ p \<and>
       (\<not> pa_outDone s \<longrightarrow> (\<exists>y. x = content (pa_channel s) @ y \<and>
          (\<not> pa_inDone s \<longrightarrow> y = pending (pa_source s)) \<and> (unbroken P n \<and> pa_inDone s \<longrightarrow> y = []))) \<and>
       (unbroken P n \<and> pa_outDone s \<longrightarrow> x = [] \<and> pa_inDone s))"

lemma path_inv_step:
  assumes laws: "path_laws P pending content closed sent" "0 < n"
    and inv: "path_inv P n pending content closed sent U L s" and step: "path_step P n s t"
  shows "path_inv P n pending content closed sent U L t"
proof -
  have ch: "channel_laws (pe_channel P) content closed" using laws(1) by (simp add: path_laws_def)
  obtain p x where px: "U = p @ x" "sent (pa_sink s) = L @ p"
    and run: "\<not> pa_outDone s \<Longrightarrow> \<exists>y. x = content (pa_channel s) @ y \<and>
      (\<not> pa_inDone s \<longrightarrow> y = pending (pa_source s)) \<and> (unbroken P n \<and> pa_inDone s \<longrightarrow> y = [])"
    and out: "unbroken P n \<Longrightarrow> pa_outDone s \<Longrightarrow> x = [] \<and> pa_inDone s"
    and cl: "closed (pa_channel s) \<longleftrightarrow> pa_inDone s"
    using inv unfolding path_inv_def by blast
  from step show ?thesis
  proof (cases rule: path_step.cases)
    case (In stop u q)
    note t = turn_in [OF laws In(3)]
    obtain a b where ab: "pending (pa_source s) = a @ b @ pending u" "content q = content (pa_channel s) @ a"
        "\<not> stop \<longrightarrow> b = []" using t(2) by blast
    have "\<exists>y. x = content q @ y \<and> (\<not> stop \<longrightarrow> y = pending u) \<and> (unbroken P n \<and> stop \<longrightarrow> y = [])"
      if "\<not> pa_outDone s"
      using run [OF that] In(2) ab t(3) by (intro exI [of _ "b @ pending u"]) auto
    moreover have "\<not> (unbroken P n \<and> pa_outDone s)" using out In(2) by blast
    ultimately show ?thesis
      using px cl t(1) In(2) channel_lawsD(4,5) [OF ch, of q] unfolding path_inv_def In(1)
      by (intro conjI exI [of _ p] exI [of _ x]) auto
  next
    case (Out stop q l)
    note t = turn_out [OF laws Out(3,4)]
    obtain a b where ab: "content (pa_channel s) = a @ b @ content q" "sent l = sent (pa_sink s) @ a"
        "\<not> stop \<longrightarrow> b = []" using t(2) by blast
    obtain y where y: "x = content (pa_channel s) @ y" "\<not> pa_inDone s \<longrightarrow> y = pending (pa_source s)"
        "unbroken P n \<and> pa_inDone s \<longrightarrow> y = []" using run [OF Out(2)] by blast
    have "unbroken P n \<and> stop \<longrightarrow> b @ content q @ y = [] \<and> pa_inDone s"
      using t(3) ab(1) y(3) cl by auto
    then have "unbroken P n \<and> stop \<longrightarrow> b @ content q @ y = [] \<and> pa_inDone s"
      "U = (p @ a) @ b @ content q @ y" "sent l = L @ p @ a" "\<not> stop \<longrightarrow> b @ content q @ y = content q @ y"
      using px ab y(1) by simp_all
    then show ?thesis
      using t(1) cl y(2,3) unfolding path_inv_def Out(1) path.simps
      by (intro conjI exI [of _ "p @ a"] exI [of _ "b @ content q @ y"] impI exI [of _ y]) simp_all
  qed
qed

interpretation path: transition_system
  "\<lambda>s. path_laws P pending content closed sent \<and> 0 < n \<and>
     (\<exists>u q l. s = path_start u q l \<and> pending u = U \<and> sent l = L \<and> content q = [] \<and> \<not> closed q)"
  "\<lambda>s t. path_laws P pending content closed sent \<and> 0 < n \<and> path_step P n s t"
  "path_inv P n pending content closed sent U L"
  for P pending content closed sent n U L
proof (unfold_locales, goal_cases)
  case (1 s)
  then show ?case by (auto simp: path_inv_def path_start_def)
next
  case (2 s t)
  then show ?case by (blast intro: path_inv_step)
qed

section \<open>Both loops end\<close>

lemma in_ends:
  assumes laws: "path_laws P pending content closed sent" "0 < n"
  shows "\<exists>t. (path_step P n)\<^sup>*\<^sup>* s t \<and> pa_inDone t"
proof (induction "length (pending (pa_source s))" arbitrary: s rule: less_induct)
  case less
  show ?case
  proof (cases "pa_inDone s")
    case False
    obtain stop u q where
      turn: "copy_turn (pe_source P) (ch_writer (pe_channel P)) n (pa_source s) (pa_channel s) = (stop, u, q)"
      by (rule prod_cases3)
    let ?t = "s\<lparr>pa_source := u, pa_channel := (if stop then ch_CloseWrite (pe_channel P) q else q), pa_inDone := stop\<rparr>"
    have step: "path_step P n s ?t" by (rule path_step.In [OF False turn])
    show ?thesis
    proof (cases stop)
      case True
      then show ?thesis using step by (intro exI [of _ ?t]) auto
    next
      case False
      then have "length (pending (pa_source ?t)) < length (pending (pa_source s))"
        using turn_in(2) [OF laws turn] by auto
      from less [OF this] show ?thesis using step by (meson converse_rtranclp_into_rtranclp)
    qed
  qed blast
qed

lemma out_ends:
  assumes laws: "path_laws P pending content closed sent" "0 < n"
  shows "closed (pa_channel s) \<Longrightarrow> pa_inDone s \<Longrightarrow> \<exists>t. (path_step P n)\<^sup>*\<^sup>* s t \<and> pa_inDone t \<and> pa_outDone t"
proof (induction "length (content (pa_channel s))" arbitrary: s rule: less_induct)
  case less
  have ch: "channel_laws (pe_channel P) content closed" using laws(1) by (simp add: path_laws_def)
  show ?case
  proof (cases "pa_outDone s")
    case False
    have ready: "ch_ready (pe_channel P) (pa_channel s)" using channel_lawsD(3) [OF ch] less(2) by blast
    obtain stop q l where
      turn: "copy_turn (ch_reader (pe_channel P)) (pe_sink P) n (pa_channel s) (pa_sink s) = (stop, q, l)"
      by (rule prod_cases3)
    let ?t = "s\<lparr>pa_channel := q, pa_sink := l, pa_outDone := stop\<rparr>"
    have step: "path_step P n s ?t" by (rule path_step.Out [OF False ready turn])
    show ?thesis
    proof (cases stop)
      case True
      then show ?thesis using step less(3) by (intro exI [of _ ?t]) auto
    next
      case False
      then have "length (content (pa_channel ?t)) < length (content (pa_channel s))"
        using turn_out(2) [OF laws ready turn] by auto
      from less(1) [OF this] show ?thesis
        using step less(2,3) turn_out(1) [OF laws ready turn] by (auto intro: converse_rtranclp_into_rtranclp)
    qed
  qed (use less(3) in blast)
qed

lemma path_steps:
  assumes "path_laws P pending content closed sent" "0 < n"
  shows "(\<lambda>s t. path_laws P pending content closed sent \<and> 0 < n \<and> path_step P n s t)\<^sup>*\<^sup>* = (path_step P n)\<^sup>*\<^sup>*"
  using assms by simp

text \<open>(C9) A user's bytes reach the service, and its answer the user: whatever the interleaving of the server's
  and the client's loop, what has arrived at the far end is at every moment a prefix of what was sent;
  once the far end has been told the end of the stream, and nothing broke, it is all of it; and
  from every state both loops can run to their end.\<close>

theorem bytes_reach_far_end:
  assumes laws: "path_laws P pending content closed sent" and n: "0 < n"
    and fresh: "content q = []" "\<not> closed q"
    and reach: "(path_step P n)\<^sup>*\<^sup>* (path_start u q l) s"
  shows "(\<exists>p. sent (pa_sink s) = sent l @ p \<and> prefix p (pending u) \<and>
      (unbroken P n \<and> pa_outDone s \<longrightarrow> p = pending u)) \<and>
    (\<exists>t. (path_step P n)\<^sup>*\<^sup>* s t \<and> pa_inDone t \<and> pa_outDone t)"
proof
  have inv: "path_inv P n pending content closed sent (pending u) (sent l) t"
    if "(path_step P n)\<^sup>*\<^sup>* (path_start u q l) t" for t
    by (rule path.reachable_inv [OF _ that [folded path_steps [OF laws n]]]) (use laws n fresh in auto)
  then show "\<exists>p. sent (pa_sink s) = sent l @ p \<and> prefix p (pending u) \<and>
      (unbroken P n \<and> pa_outDone s \<longrightarrow> p = pending u)"
    using reach unfolding path_inv_def by (metis append_Nil2 prefixI)
  obtain t where t: "(path_step P n)\<^sup>*\<^sup>* s t" "pa_inDone t" using in_ends [OF laws n] by blast
  have "closed (pa_channel t)" using inv [OF rtranclp_trans [OF reach t(1)]] t(2) by (auto simp: path_inv_def)
  then show "\<exists>t. (path_step P n)\<^sup>*\<^sup>* s t \<and> pa_inDone t \<and> pa_outDone t"
    using out_ends [OF laws n _ t(2)] t(1) by (meson rtranclp_trans)
qed

text \<open>A queue of bytes is such a channel.\<close>

definition queue_channel :: "(string \<times> bool) channel" where
  "queue_channel = \<lparr>
     ch_writer = \<lparr>wr_Write = (\<lambda>d (c, b). (length d, None, (c @ d, b)))\<rparr>,
     ch_reader = \<lparr>rd_Read = (\<lambda>n (c, b).
       if c = [] then ([], Some (if b then EOF else IOError ''no data''), (c, b))
       else (take n c, None, (drop n c, b)))\<rparr>,
     ch_ready = (\<lambda>(c, b). c \<noteq> [] \<or> b),
     ch_CloseWrite = (\<lambda>(c, b). (c, True))\<rparr>"

lemma queue_channel_laws: "channel_laws queue_channel fst snd"
  by (auto simp: channel_laws_def queue_channel_def reader_laws_def writer_laws_def split: if_splits)

definition demo_path :: "(string list, string \<times> bool, string) path_env" where
  "demo_path = \<lparr>pe_source = chunk_reader, pe_channel = queue_channel, pe_sink = log_writer\<rparr>"

lemma demo_path_laws: "path_laws demo_path concat fst snd (\<lambda>w. w)" "unbroken demo_path n"
proof -
  show "path_laws demo_path concat fst snd (\<lambda>w. w)"
    by (simp add: path_laws_def demo_path_def chunk_reader_laws queue_channel_laws log_writer_laws)
  show "unbroken demo_path n"
    using clean_demo by (auto simp: unbroken_def demo_path_def queue_channel_def split: if_splits)
qed

theorem bytes_reach_far_end_witness:
  "\<exists>s. (path_step demo_path 3)\<^sup>*\<^sup>* (path_start [''GET'', '' /''] ('''', False) '''') s \<and> pa_outDone s \<and>
     pa_sink s = ''GET /''"
proof -
  note far = bytes_reach_far_end [OF demo_path_laws(1), where n = 3 and q = "('''', False)" and l = "''''"
      and u = "[''GET'', '' /'']", simplified]
  obtain t where t: "(path_step demo_path 3)\<^sup>*\<^sup>* (path_start [''GET'', '' /''] ('''', False) '''') t" "pa_outDone t"
    using far [OF rtranclp.rtrancl_refl] by blast
  with far [OF t(1)] demo_path_laws(2) [of 3] show ?thesis by blast
qed

end
