(* ===== verification/Tunnel_Client.thy ===== *)
theory Tunnel_Client
  imports Config Authenticator Wire_Messages Tunnel_Session "HOL-Library.Multiset"
begin

text \<open>
  The client, \<open>src/pkg/client/client.go\<close>: a connection round of \<open>Start\<close>, the requests it sends, the
  creation of tunnels, health checks, the channels the server opens, and the reload of the
  configuration. \<open>sync.Map\<close> is an association list with distinct keys and \<open>order\<close> the order a range
  over a map takes. The client's goroutines that create tunnels and have not heard from the server yet
  are \<open>cl_creating\<close>; the requests it sent, the listeners it closed and the tunnels it accepts users for
  are logs. \<open>ssh.Dial\<close>, \<open>client.Listen\<close> and \<open>net.Dial\<close> are third-party or system calls: what they
  return is an argument.
\<close>

section \<open>State\<close>

record TunnelHandle =
  th_Tunnel :: TunnelConfig
  th_Listener :: nat
  th_ActualPort :: u32
  th_Active :: bool

record Client =
  cl_cfg :: ClientConfig
  cl_auth :: Authenticator
  cl_sshClient :: "nat option"
  cl_tunnels :: "(string \<times> TunnelHandle) list"
  cl_configPath :: string
  cl_reloadChan :: bool                  \<comment> \<open>the channel of capacity 1 is full\<close>
  cl_sent :: "request list"
  cl_closed :: "nat list"
  cl_creating :: "TunnelConfig list"

definition NewClient :: "ClientConfig \<Rightarrow> string \<Rightarrow> client_error + Client" where
  "NewClient cfg configPath =
     (case client_Validate cfg of
        Some err \<Rightarrow> Inl err
      | None \<Rightarrow> Inr \<lparr>cl_cfg = cfg, cl_auth = NewAuthenticator (cc_Token cfg), cl_sshClient = None, cl_tunnels = [],
                     cl_configPath = configPath, cl_reloadChan = False, cl_sent = [], cl_closed = [],
                     cl_creating = []\<rparr>)"

definition send_request :: "string \<Rightarrow> string \<Rightarrow> Client \<Rightarrow> Client" where
  "send_request ty payload c = c\<lparr>cl_sent := cl_sent c @ [\<lparr>rq_Type = ty, rq_Payload = payload\<rparr>]\<rparr>"

section \<open>The requests\<close>

definition host_port :: "TunnelConfig \<Rightarrow> string" where
  "host_port tunnel = tc_LocalIP tunnel @ '':'' @ dec_of_int (tc_LocalPort tunnel)"

definition sendClientInfo :: "wire_env \<Rightarrow> Client \<Rightarrow> Client" where
  "sendClientInfo W c =
     (let info = \<lparr>ci_Project = cc_Project (cl_cfg c), ci_Region = cc_Region (cl_cfg c)\<rparr>;
          data = w_text W (encode_ClientInfo info)
      in send_request ''tbore-client-info'' data c)"

definition tunnel_info :: "TunnelConfig \<Rightarrow> u32 \<Rightarrow> TunnelInfoMsg" where
  "tunnel_info tunnel actualPort =
     \<lparr>tm_Port = actualPort, tm_Name = tc_Name tunnel, tm_LocalIP = tc_LocalIP tunnel,
      tm_LocalPort = tc_LocalPort tunnel, tm_Timeout = tc_Timeout tunnel\<rparr>"

definition sendTunnelInfo :: "wire_env \<Rightarrow> TunnelConfig \<Rightarrow> u32 \<Rightarrow> Client \<Rightarrow> Client" where
  "sendTunnelInfo W tunnel actualPort c =
     (let data = w_text W (encode_TunnelInfo (tunnel_info tunnel actualPort))
      in send_request ''tbore-tunnel-info'' data c)"

definition reportTunnelHealth :: "wire_env \<Rightarrow> u32 \<Rightarrow> int \<Rightarrow> Client \<Rightarrow> Client" where
  "reportTunnelHealth W remotePort status c =
     (let data = w_text W (encode_HealthReport \<lparr>hr_Port = remotePort, hr_Status = status\<rparr>)
      in send_request ''tbore-health-report'' data c)"

text \<open>\<open>dial addr\<close>: whether a TCP connection to \<open>addr\<close> can be made.\<close>

definition checkTunnelHealth :: "wire_env \<Rightarrow> (string \<Rightarrow> bool) \<Rightarrow> TunnelConfig \<Rightarrow> Client \<Rightarrow> Client" where
  "checkTunnelHealth W dial tunnel c =
     (let addr = host_port tunnel
      in if \<not> dial addr then reportTunnelHealth W (tc_RemotePort tunnel) 2 c
         else reportTunnelHealth W (tc_RemotePort tunnel) 0 c)"

text \<open>One tick of \<open>healthCheckLoop\<close>: a check per configured tunnel, in the order \<open>order\<close> their goroutines
  get to send.\<close>

definition healthCheck_tick ::
  "wire_env \<Rightarrow> (string \<Rightarrow> bool) \<Rightarrow> (TunnelConfig list \<Rightarrow> TunnelConfig list) \<Rightarrow> Client \<Rightarrow> Client" where
  "healthCheck_tick W dial order c =
     foldl (\<lambda>c tunnel. checkTunnelHealth W dial tunnel c) c (order (cc_Tunnels (cl_cfg c)))"

text \<open>One tick of \<open>sendKeepAlive\<close>; a request that fails closes the connection.\<close>

definition keepAlive_tick :: "bool \<Rightarrow> Client \<Rightarrow> bool \<times> Client" where
  "keepAlive_tick answered c = (\<not> answered, send_request ''keepalive@openssh.com'' '''' c)"

definition cancelPortForward :: "wire_env \<Rightarrow> u32 \<Rightarrow> Client \<Rightarrow> Client" where
  "cancelPortForward W port c =
     send_request ''cancel-tcpip-forward'' (w_marshal_forward W (''0.0.0.0'', port)) c"

section \<open>Connecting\<close>

definition client_target :: "ClientConfig \<Rightarrow> string" where
  "client_target cfg = cc_ServerAddr cfg @ '':'' @ dec_of_int (cc_ServerPort cfg)"

datatype round_outcome = RetryLater | Serving

text \<open>One round of the loop of \<open>Start\<close>: \<open>dialed\<close> is the connection \<open>ssh.Dial\<close> returned for the target and
  the password (\<open>None\<close>: an error), \<open>info_ok\<close> whether the client-info request went through. In the first
  two cases the loop waits five seconds and tries again; otherwise the tunnels are created.\<close>

definition start_round ::
  "wire_env \<Rightarrow> (string \<Rightarrow> string \<Rightarrow> nat option) \<Rightarrow> bytes \<Rightarrow> bool \<Rightarrow> Client \<Rightarrow> round_outcome \<times> Client" where
  "start_round W sshDial random info_ok c =
     (let target = client_target (cl_cfg c);
          authString = client_authString (cl_auth c) random
      in case sshDial target authString of
           None \<Rightarrow> (RetryLater, c)
         | Some client \<Rightarrow>
             (let c1 = sendClientInfo W (c\<lparr>cl_sshClient := Some client\<rparr>)
              in if \<not> info_ok then (RetryLater, c1)
                 else (Serving, c1\<lparr>cl_creating := cl_creating c1 @ cc_Tunnels (cl_cfg c1)\<rparr>)))"

text \<open>\<open>client.Wait\<close> returned. The handles of the dead connection's tunnels stay.\<close>

definition connection_lost :: "Client \<Rightarrow> Client" where
  "connection_lost c = c\<lparr>cl_sshClient := None\<rparr>"

section \<open>Creating tunnels\<close>

text \<open>\<open>createTunnel\<close>: the \<open>i\<close>-th waiting goroutine gets the result of \<open>client.Listen\<close>, a listener and the
  port the server bound.\<close>

definition createTunnel ::
  "wire_env \<Rightarrow> (nat \<times> u32) option \<Rightarrow> TunnelConfig \<Rightarrow> Client \<Rightarrow> Client" where
  "createTunnel W listen tunnel c =
     (case listen of
        None \<Rightarrow> c
      | Some (l, actualPort) \<Rightarrow>
          (let handle = \<lparr>th_Tunnel = tunnel, th_Listener = l, th_ActualPort = actualPort, th_Active = True\<rparr>
           in sendTunnelInfo W tunnel actualPort
                (c\<lparr>cl_tunnels := AList.update (tc_Name tunnel) handle (cl_tunnels c)\<rparr>)))"

definition create_step :: "wire_env \<Rightarrow> nat \<Rightarrow> (nat \<times> u32) option \<Rightarrow> Client \<Rightarrow> Client" where
  "create_step W i listen c =
     (if i < length (cl_creating c)
      then createTunnel W listen (cl_creating c ! i)
             (c\<lparr>cl_creating := take i (cl_creating c) @ drop (Suc i) (cl_creating c)\<rparr>)
      else c)"

section \<open>Users' connections\<close>

text \<open>A channel the server opens: the address in its data is dialled (\<open>handleServerChannels\<close>).\<close>

datatype channel_outcome = Rejected | AcceptFailed | Relays string

definition handleServerChannel :: "wire_env \<Rightarrow> (string \<Rightarrow> bool) \<Rightarrow> bool \<Rightarrow> string \<Rightarrow> channel_outcome" where
  "handleServerChannel W dial accept_ok extraData =
     (case w_channel W extraData of
        (addr, port, originAddr, originPort) \<Rightarrow>
          if \<not> dial addr then Rejected
          else if \<not> accept_ok then AcceptFailed
          else Relays addr)"

text \<open>A connection accepted by a tunnel's own listener (\<open>handleRemoteConnection\<close>).\<close>

definition handleRemoteConnection :: "(string \<Rightarrow> bool) \<Rightarrow> TunnelConfig \<Rightarrow> channel_outcome" where
  "handleRemoteConnection dial tunnel =
     (if \<not> dial (host_port tunnel) then Rejected else Relays (host_port tunnel))"

section \<open>Reloading\<close>

definition TriggerReload :: "Client \<Rightarrow> Client" where
  "TriggerReload c = (if cl_reloadChan c then c else c\<lparr>cl_reloadChan := True\<rparr>)"

text \<open>\<open>newTunnels\<close>: the configuration's tunnels by name; of two with the same name the last one.\<close>

definition tunnels_by_name :: "TunnelConfig list \<Rightarrow> (string \<times> TunnelConfig) list" where
  "tunnels_by_name ts = foldl (\<lambda>m t. AList.update (tc_Name t) t m) [] ts"

definition tunnel_changed :: "TunnelConfig \<Rightarrow> TunnelConfig \<Rightarrow> bool" where
  "tunnel_changed old new \<longleftrightarrow>
     tc_LocalIP old \<noteq> tc_LocalIP new \<or> tc_LocalPort old \<noteq> tc_LocalPort new \<or>
     tc_RemotePort old \<noteq> tc_RemotePort new \<or> tc_Timeout old \<noteq> tc_Timeout new"

definition drop_tunnel :: "wire_env \<Rightarrow> string \<times> TunnelHandle \<Rightarrow> Client \<Rightarrow> Client" where
  "drop_tunnel W kv c =
     (case kv of (name, handle) \<Rightarrow>
        (let c1 = cancelPortForward W (th_ActualPort handle) c;
             c2 = c1\<lparr>cl_closed := cl_closed c1 @ [th_Listener handle]\<rparr>
         in c2\<lparr>cl_tunnels := AList.delete name (cl_tunnels c2)\<rparr>))"

text \<open>The callback of the range: the new tunnels not handled yet, and the client.\<close>

definition reload_visit ::
  "wire_env \<Rightarrow> (string \<times> TunnelConfig) list \<times> Client \<Rightarrow> string \<times> TunnelHandle \<Rightarrow>
     (string \<times> TunnelConfig) list \<times> Client" where
  "reload_visit W s kv =
     (case (s, kv) of ((newTunnels, c), (name, handle)) \<Rightarrow>
        (case map_of newTunnels name of
           None \<Rightarrow> (newTunnels, drop_tunnel W kv c)
         | Some newTunnel \<Rightarrow>
             if tunnel_changed (th_Tunnel handle) newTunnel then (newTunnels, drop_tunnel W kv c)
             else (AList.delete name newTunnels, c)))"

text \<open>The order of the two ranges: over the handles and over what is left of the new tunnels.\<close>

record range_order =
  ro_handles :: "(string \<times> TunnelHandle) list \<Rightarrow> (string \<times> TunnelHandle) list"
  ro_new :: "(string \<times> TunnelConfig) list \<Rightarrow> (string \<times> TunnelConfig) list"

definition apply_config :: "wire_env \<Rightarrow> range_order \<Rightarrow> ClientConfig \<Rightarrow> Client \<Rightarrow> Client" where
  "apply_config W Q newCfg c =
     (case foldl (reload_visit W) (tunnels_by_name (cc_Tunnels newCfg), c) (ro_handles Q (cl_tunnels c)) of
        (newTunnels, c1) \<Rightarrow>
          c1\<lparr>cl_creating := cl_creating c1 @ map snd (ro_new Q newTunnels), cl_cfg := newCfg\<rparr>)"

definition ReloadTunnels ::
  "wire_env \<Rightarrow> range_order \<Rightarrow> (string \<Rightarrow> ClientConfig option) \<Rightarrow> (string \<Rightarrow> string option) \<Rightarrow> Client \<Rightarrow> Client" where
  "ReloadTunnels W Q yaml readFile c =
     (case LoadClientConfig yaml (readFile (cl_configPath c)) of
        Inl err \<Rightarrow> c
      | Inr newCfg \<Rightarrow>
          (case client_Validate newCfg of
             Some err \<Rightarrow> c
           | None \<Rightarrow> apply_config W Q newCfg c))"

text \<open>One turn of \<open>reloadLoop\<close>: the context is done (the loop returns), or a trigger is received.\<close>

definition reloadLoop_turn ::
  "wire_env \<Rightarrow> range_order \<Rightarrow> (string \<Rightarrow> ClientConfig option) \<Rightarrow> (string \<Rightarrow> string option) \<Rightarrow> bool \<Rightarrow> Client \<Rightarrow>
     bool \<times> Client" where
  "reloadLoop_turn W Q yaml readFile ctx_done c =
     (if ctx_done then (False, c)
      else if cl_reloadChan c then (True, ReloadTunnels W Q yaml readFile (c\<lparr>cl_reloadChan := False\<rparr>))
      else (True, c))"

section \<open>Status\<close>

record tunnel_status =
  ts_Name :: string
  ts_LocalIP :: string
  ts_LocalPort :: int
  ts_RemotePort :: u32
  ts_Active :: bool

definition GetTunnelStatus ::
  "((string \<times> TunnelHandle) list \<Rightarrow> (string \<times> TunnelHandle) list) \<Rightarrow> Client \<Rightarrow> tunnel_status list" where
  "GetTunnelStatus order c =
     map (\<lambda>(name, handle).
            \<lparr>ts_Name = name, ts_LocalIP = tc_LocalIP (th_Tunnel handle), ts_LocalPort = tc_LocalPort (th_Tunnel handle),
             ts_RemotePort = th_ActualPort handle, ts_Active = th_Active handle\<rparr>)
       (order (cl_tunnels c))"

section \<open>What a reload does\<close>

text \<open>The tunnel the configuration wants under a name: the last one with it.\<close>

definition wanted :: "TunnelConfig list \<Rightarrow> string \<Rightarrow> TunnelConfig option" where
  "wanted ts n = find (\<lambda>t. tc_Name t = n) (rev ts)"

text \<open>Two tunnels that agree in everything but their names.\<close>

definition same_settings :: "TunnelConfig \<Rightarrow> TunnelConfig \<Rightarrow> bool" where
  "same_settings old new \<longleftrightarrow> old\<lparr>tc_Name := tc_Name new\<rparr> = new"

definition keeps :: "(string \<rightharpoonup> TunnelConfig) \<Rightarrow> string \<times> TunnelHandle \<Rightarrow> bool" where
  "keeps want kv \<longleftrightarrow> (case want (fst kv) of None \<Rightarrow> False | Some t \<Rightarrow> same_settings (th_Tunnel (snd kv)) t)"

lemma tunnel_changed_iff: "tunnel_changed old new \<longleftrightarrow> \<not> same_settings old new"
  by (cases old; cases new) (simp add: tunnel_changed_def same_settings_def)

lemma keeps_iff:
  "keeps want kv \<longleftrightarrow> (case want (fst kv) of None \<Rightarrow> False | Some t \<Rightarrow> \<not> tunnel_changed (th_Tunnel (snd kv)) t)"
  by (simp add: keeps_def tunnel_changed_iff split: option.split)

lemma tunnels_by_name_append:
  "tunnels_by_name (ts @ [t]) = AList.update (tc_Name t) t (tunnels_by_name ts)"
  by (simp add: tunnels_by_name_def)

lemma tunnels_by_name_distinct: "distinct (map fst (tunnels_by_name ts))"
  by (induction ts rule: rev_induct) (simp_all add: tunnels_by_name_append distinct_update, simp add: tunnels_by_name_def)

lemma tunnels_by_name_lookup: "map_of (tunnels_by_name ts) = wanted ts"
  by (induction ts rule: rev_induct)
     (auto simp: tunnels_by_name_append update_conv' wanted_def fun_eq_iff, simp add: tunnels_by_name_def)

lemma wanted_name:
  assumes "wanted ts n = Some t"
  shows "tc_Name t = n" "t \<in> set ts"
proof -
  obtain i where "i < length (rev ts)" "tc_Name (rev ts ! i) = n" "t = rev ts ! i"
    using assms unfolding wanted_def find_Some_iff by blast
  then show "tc_Name t = n" "t \<in> set ts" by (simp_all, metis nth_mem set_rev length_rev)
qed

lemma delete_filter: "AList.delete n xs = filter (\<lambda>x. fst x \<noteq> n) xs"
  by (induction xs) auto

text \<open>Dropping the handles \<open>ds\<close>, in this order.\<close>

definition cancel_request :: "wire_env \<Rightarrow> string \<times> TunnelHandle \<Rightarrow> request" where
  "cancel_request W kv =
     \<lparr>rq_Type = ''cancel-tcpip-forward'', rq_Payload = w_marshal_forward W (''0.0.0.0'', th_ActualPort (snd kv))\<rparr>"

definition dropped :: "wire_env \<Rightarrow> (string \<times> TunnelHandle) list \<Rightarrow> Client \<Rightarrow> Client" where
  "dropped W ds c =
     c\<lparr>cl_tunnels := filter (\<lambda>x. fst x \<notin> fst ` set ds) (cl_tunnels c),
       cl_sent := cl_sent c @ map (cancel_request W) ds,
       cl_closed := cl_closed c @ map (th_Listener \<circ> snd) ds\<rparr>"

lemma dropped_Nil [simp]: "dropped W [] c = c"
  by (simp add: dropped_def)

lemma dropped_Cons: "dropped W ds (drop_tunnel W kv c) = dropped W (kv # ds) c"
proof -
  have "filter (\<lambda>x. fst x \<notin> fst ` set ds) (AList.delete (fst kv) xs) =
      filter (\<lambda>x. fst x \<notin> fst ` set (kv # ds)) xs" for xs :: "(string \<times> TunnelHandle) list"
    unfolding delete_filter filter_filter by (rule filter_cong) auto
  then show ?thesis
    by (cases kv) (simp add: dropped_def drop_tunnel_def cancelPortForward_def send_request_def cancel_request_def Let_def)
qed

lemma reload_visits:
  assumes "distinct (map fst hs)"
  shows "foldl (reload_visit W) (m, c) hs =
    (filter (\<lambda>x. fst x \<notin> fst ` set (filter (keeps (map_of m)) hs)) m,
     dropped W (filter (\<lambda>kv. \<not> keeps (map_of m) kv) hs) c)"
  using assms
proof (induction hs arbitrary: m c)
  case (Cons kv hs)
  obtain n h where kv: "kv = (n, h)" by force
  have n: "fst x \<noteq> n" if "x \<in> set hs" for x using Cons.prems that by (auto simp: kv)
  have d: "distinct (map fst hs)" using Cons.prems by simp
  show ?case
  proof (cases "keeps (map_of m) kv")
    case False
    then have "reload_visit W (m, c) kv = (m, drop_tunnel W kv c)"
      by (auto simp: reload_visit_def keeps_iff kv split: option.splits)
    then show ?thesis using False Cons.IH [OF d, of m] by (simp add: dropped_Cons)
  next
    case True
    let ?m = "AList.delete n m"
    have visit: "reload_visit W (m, c) kv = (?m, c)"
      using True by (auto simp: reload_visit_def keeps_iff kv split: option.splits)
    have same: "keeps (map_of ?m) x = keeps (map_of m) x" if "x \<in> set hs" for x
      using n [OF that] by (simp add: keeps_iff delete_conv')
    have f: "filter (keeps (map_of ?m)) hs = filter (keeps (map_of m)) hs"
      "filter (\<lambda>kv. \<not> keeps (map_of ?m) kv) hs = filter (\<lambda>kv. \<not> keeps (map_of m) kv) hs"
      by (rule filter_cong; simp add: same)+
    have "filter (\<lambda>x. fst x \<notin> fst ` set (filter (keeps (map_of m)) hs)) ?m =
        filter (\<lambda>x. fst x \<notin> fst ` set (filter (keeps (map_of m)) (kv # hs))) m"
      unfolding delete_filter filter_filter using True by (intro filter_cong) (auto simp: kv)
    then show ?thesis
      using Cons.IH [OF d, of ?m c] True unfolding f by (simp add: visit)
  qed
qed simp

lemma apply_config_eq:
  fixes newCfg :: ClientConfig and Q :: range_order and c :: Client
  assumes "distinct (map fst (ro_handles Q (cl_tunnels c)))"
  defines "want \<equiv> wanted (cc_Tunnels newCfg)" and "hs \<equiv> ro_handles Q (cl_tunnels c)"
  shows "apply_config W Q newCfg c =
    (let c1 = dropped W (filter (\<lambda>kv. \<not> keeps want kv) hs) c
     in c1\<lparr>cl_creating := cl_creating c @ map snd (ro_new Q
              (filter (\<lambda>x. fst x \<notin> fst ` set (filter (keeps want) hs)) (tunnels_by_name (cc_Tunnels newCfg)))),
           cl_cfg := newCfg\<rparr>)"
  by (simp add: apply_config_def reload_visits [OF assms(1)] tunnels_by_name_lookup want_def hs_def Let_def dropped_def)

definition is_order :: "range_order \<Rightarrow> bool" where
  "is_order Q \<longleftrightarrow> (\<forall>xs. mset (ro_handles Q xs) = mset xs) \<and> (\<forall>ys. mset (ro_new Q ys) = mset ys)"

text \<open>The tunnels a reload has to create.\<close>

definition missing :: "TunnelConfig list \<Rightarrow> (string \<times> TunnelHandle) list \<Rightarrow> TunnelConfig \<Rightarrow> bool" where
  "missing ts hs t \<longleftrightarrow> wanted ts (tc_Name t) = Some t \<and>
     \<not> (\<exists>h. map_of hs (tc_Name t) = Some h \<and> same_settings (th_Tunnel h) t)"

lemma missing_iff:
  "missing ts hs t \<longleftrightarrow> wanted ts (tc_Name t) = Some t \<and>
     \<not> (\<exists>h. map_of hs (tc_Name t) = Some h \<and> \<not> tunnel_changed (th_Tunnel h) t)"
  by (simp add: missing_def tunnel_changed_iff)

lemma filter_not_names:
  assumes "distinct (map fst xs)" "set hs = set xs"
  shows "filter (\<lambda>x. fst x \<notin> fst ` set (filter (\<lambda>kv. \<not> P kv) hs)) xs = filter P xs"
proof (rule filter_cong [OF refl])
  fix x assume x: "x \<in> set xs"
  then have "y = x" if "y \<in> set xs" "fst y = fst x" for y
    using eq_key_imp_eq_value [OF assms(1), of "fst x" "snd y" "snd x"] that
    by (metis prod.collapse)
  then show "(fst x \<notin> fst ` set (filter (\<lambda>kv. \<not> P kv) hs)) = P x"
    using x assms(2) by auto
qed

lemma missing_list:
  fixes ts :: "TunnelConfig list"
  assumes d: "distinct (map fst hs)"
  defines "ns \<equiv> filter (\<lambda>x. fst x \<notin> fst ` set (filter (keeps (wanted ts)) hs)) (tunnels_by_name ts)"
  shows "distinct (map (tc_Name \<circ> snd) ns)" "t \<in> snd ` set ns \<longleftrightarrow> missing ts hs t"
proof -
  have by_name: "(n, t) \<in> set (tunnels_by_name ts) \<longleftrightarrow> wanted ts n = Some t" for n t
    using map_of_eq_Some_iff [OF tunnels_by_name_distinct, of ts n t] by (simp add: tunnels_by_name_lookup)
  have names: "map (tc_Name \<circ> snd) ns = map fst ns"
    by (rule map_cong [OF refl]) (auto simp: ns_def by_name dest: wanted_name)
  show "distinct (map (tc_Name \<circ> snd) ns)"
    unfolding names unfolding ns_def by (rule distinct_map_filter [OF tunnels_by_name_distinct])
  have kept: "n \<in> fst ` set (filter (keeps (wanted ts)) hs) \<longleftrightarrow>
      (\<exists>h. map_of hs n = Some h \<and> \<not> tunnel_changed (th_Tunnel h) t)" if "wanted ts n = Some t" for n t
    using that by (force simp: keeps_iff map_of_eq_Some_iff [OF d])
  have "t \<in> snd ` set ns \<longleftrightarrow> (\<exists>n. wanted ts n = Some t \<and> n \<notin> fst ` set (filter (keeps (wanted ts)) hs))"
    unfolding ns_def set_filter using by_name by (simp add: image_iff)
  also have "\<dots> \<longleftrightarrow> wanted ts (tc_Name t) = Some t \<and> tc_Name t \<notin> fst ` set (filter (keeps (wanted ts)) hs)"
    using wanted_name(1) [of ts _ t] by blast
  also have "\<dots> \<longleftrightarrow> missing ts hs t"
    using kept [of "tc_Name t"] unfolding missing_iff by blast
  finally show "t \<in> snd ` set ns \<longleftrightarrow> missing ts hs t" .
qed

lemma missing_order: "set hs = set xs \<Longrightarrow> distinct (map fst hs) \<Longrightarrow> distinct (map fst xs) \<Longrightarrow>
    missing ts hs t \<longleftrightarrow> missing ts xs t"
  by (metis map_of_eq_Some_iff missing_iff)

lemma order_facts:
  assumes "is_order Q" "distinct (map fst xs)"
  shows "set (ro_handles Q xs) = set xs" "distinct (map fst (ro_handles Q xs))"
proof -
  have "mset (ro_handles Q xs) = mset xs" using assms(1) by (simp add: is_order_def)
  then show "set (ro_handles Q xs) = set xs" "distinct (map fst (ro_handles Q xs))"
    using assms(2) by (auto simp: set_mset_mset [symmetric] simp del: set_mset_mset)
       (metis mset_eq_imp_distinct_iff mset_map)
qed

text \<open>(C3) A reload changes exactly what the configuration changed: a file that cannot be read, parsed or
  validated changes nothing; otherwise, whatever the order the maps are ranged over, the tunnels that
  the new configuration still wants with the same addresses, port and timeout stay as they are, every
  other one is cancelled at the server, its listener closed and forgotten, and exactly the wanted
  tunnels that are not there are created, one for each name.\<close>

theorem reload_correct:
  assumes "distinct (map fst (cl_tunnels c))" "is_order Q"
  shows "let c' = ReloadTunnels W Q yaml readFile c in
    case LoadClientConfig yaml (readFile (cl_configPath c)) of
      Inl err \<Rightarrow> c' = c
    | Inr newCfg \<Rightarrow>
        if client_Validate newCfg \<noteq> None then c' = c
        else let gone = filter (\<lambda>kv. \<not> keeps (wanted (cc_Tunnels newCfg)) kv) (cl_tunnels c) in
          cl_cfg c' = newCfg \<and> cl_tunnels c' = filter (keeps (wanted (cc_Tunnels newCfg))) (cl_tunnels c) \<and>
          mset (cl_sent c') = mset (cl_sent c) + mset (map (cancel_request W) gone) \<and>
          mset (cl_closed c') = mset (cl_closed c) + mset (map (th_Listener \<circ> snd) gone) \<and>
          (\<exists>new. mset (cl_creating c') = mset (cl_creating c) + mset new \<and> distinct (map tc_Name new) \<and>
            (\<forall>t. t \<in> set new \<longleftrightarrow> missing (cc_Tunnels newCfg) (cl_tunnels c) t))"
proof (cases "LoadClientConfig yaml (readFile (cl_configPath c))")
  case (Inl err)
  then show ?thesis by (simp add: ReloadTunnels_def)
next
  case (Inr newCfg)
  let ?hs = "ro_handles Q (cl_tunnels c)" and ?want = "wanted (cc_Tunnels newCfg)"
  let ?ns = "filter (\<lambda>x. fst x \<notin> fst ` set (filter (keeps ?want) ?hs)) (tunnels_by_name (cc_Tunnels newCfg))"
  note o = order_facts [OF assms(2,1)]
  have ms: "mset ?hs = mset (cl_tunnels c)" "mset (ro_new Q ?ns) = mset ?ns"
    using assms(2) by (simp_all add: is_order_def)
  have names: "mset (map (tc_Name \<circ> snd) (ro_new Q ?ns)) = mset (map (tc_Name \<circ> snd) ?ns)"
    unfolding mset_map ms(2) ..
  have new: "distinct (map tc_Name (map snd (ro_new Q ?ns)))"
    using missing_list(1) [OF o(2)] mset_eq_imp_distinct_iff [OF names] by (simp add: comp_def)
  have "t \<in> set (map snd (ro_new Q ?ns)) \<longleftrightarrow> missing (cc_Tunnels newCfg) (cl_tunnels c) t" for t
    using missing_list(2) [OF o(2), of t] missing_order [OF o assms(1)] mset_eq_setD [OF ms(2)] by simp
  with new show ?thesis
    using filter_not_names [OF assms(1) o(1)]
    by (auto simp: Inr ms(1) ReloadTunnels_def apply_config_eq [OF o(2)] Let_def dropped_def split: option.split
        intro!: exI [of _ "map snd (ro_new Q ?ns)"])
qed

section \<open>The client's steps\<close>

datatype client_event =
    Round "string \<Rightarrow> string \<Rightarrow> nat option" bytes bool
  | Lost
  | Created nat "(nat \<times> u32) option"
  | HealthTick "string \<Rightarrow> bool" "TunnelConfig list \<Rightarrow> TunnelConfig list"
  | KeepAlive bool
  | Trigger
  | ReloadTurn range_order "string \<Rightarrow> string option" bool

fun client_step :: "wire_env \<Rightarrow> (string \<Rightarrow> ClientConfig option) \<Rightarrow> Client \<Rightarrow> client_event \<Rightarrow> Client" where
  "client_step W yaml c (Round sshDial random info_ok) = snd (start_round W sshDial random info_ok c)"
| "client_step W yaml c Lost = connection_lost c"
| "client_step W yaml c (Created i listen) = create_step W i listen c"
| "client_step W yaml c (HealthTick dial order) = healthCheck_tick W dial order c"
| "client_step W yaml c (KeepAlive answered) = snd (keepAlive_tick answered c)"
| "client_step W yaml c Trigger = TriggerReload c"
| "client_step W yaml c (ReloadTurn Q readFile ctx_done) = snd (reloadLoop_turn W Q yaml readFile ctx_done c)"

text \<open>Every handle is stored under its tunnel's name.\<close>

definition names_match :: "(string \<times> TunnelHandle) list \<Rightarrow> bool" where
  "names_match hs \<longleftrightarrow> distinct (map fst hs) \<and> (\<forall>(n, h) \<in> set hs. tc_Name (th_Tunnel h) = n)"

definition handles_ok :: "Client \<Rightarrow> bool" where
  "handles_ok c \<longleftrightarrow> names_match (cl_tunnels c)"

fun client_event_ok :: "client_event \<Rightarrow> bool" where
  "client_event_ok (ReloadTurn Q readFile ctx_done) \<longleftrightarrow> is_order Q"
| "client_event_ok _ \<longleftrightarrow> True"

lemma send_request_kept [simp]:
  "cl_tunnels (send_request ty p c) = cl_tunnels c" "cl_creating (send_request ty p c) = cl_creating c"
  "cl_cfg (send_request ty p c) = cl_cfg c" "cl_configPath (send_request ty p c) = cl_configPath c"
  "cl_closed (send_request ty p c) = cl_closed c" "cl_reloadChan (send_request ty p c) = cl_reloadChan c"
  by (simp_all add: send_request_def)

lemma set_AList_update: "x \<in> set (AList.update k v xs) \<Longrightarrow> x = (k, v) \<or> x \<in> set xs"
  by (induction xs) (auto split: if_splits)

lemma names_match_update:
  "names_match hs \<Longrightarrow> tc_Name (th_Tunnel h) = n \<Longrightarrow> names_match (AList.update n h hs)"
  by (auto simp: names_match_def distinct_update dest!: set_AList_update)

lemma names_match_filter: "names_match hs \<Longrightarrow> names_match (filter P hs)"
  by (simp add: names_match_def distinct_map_filter)

lemma createTunnel_tunnels:
  "cl_tunnels (createTunnel W listen tunnel c) =
     (case listen of None \<Rightarrow> cl_tunnels c
      | Some (l, p) \<Rightarrow> AList.update (tc_Name tunnel)
          \<lparr>th_Tunnel = tunnel, th_Listener = l, th_ActualPort = p, th_Active = True\<rparr> (cl_tunnels c))"
  by (simp add: createTunnel_def sendTunnelInfo_def Let_def split: option.split)

lemma handles_ok_create: "handles_ok c \<Longrightarrow> handles_ok (create_step W i listen c)"
  by (auto simp: handles_ok_def create_step_def createTunnel_tunnels intro: names_match_update split: option.split)

lemma health_kept: "cl_tunnels (healthCheck_tick W dial order c) = cl_tunnels c"
proof -
  have "cl_tunnels (foldl (\<lambda>c tunnel. checkTunnelHealth W dial tunnel c) c ts) = cl_tunnels c" for ts
    by (induction ts arbitrary: c) (simp_all add: checkTunnelHealth_def reportTunnelHealth_def Let_def)
  then show ?thesis by (simp add: healthCheck_tick_def)
qed

lemma handles_ok_reload:
  assumes "handles_ok c" "is_order Q"
  shows "handles_ok (ReloadTunnels W Q yaml readFile c)"
proof -
  have "distinct (map fst (ro_handles Q (cl_tunnels c)))"
    using order_facts [OF assms(2)] assms(1) by (simp add: handles_ok_def names_match_def)
  then show ?thesis
    using assms(1) names_match_filter
    by (simp add: ReloadTunnels_def apply_config_eq Let_def dropped_def handles_ok_def split: sum.split option.split)
qed

interpretation client: event_machine "client_step W yaml" client_event_ok handles_ok for W yaml
proof (unfold_locales, goal_cases)
  case (1 c e)
  show ?case
  proof (cases e)
    case (ReloadTurn Q readFile ctx_done)
    have "handles_ok (c\<lparr>cl_reloadChan := False\<rparr>)" using 1(1) by (simp add: handles_ok_def)
    from handles_ok_reload [OF this] show ?thesis
      using 1 ReloadTurn by (simp add: reloadLoop_turn_def)
  next
    case (Created i listen)
    then show ?thesis using handles_ok_create [OF 1(1)] by simp
  qed (use 1(1) in \<open>simp_all add: start_round_def sendClientInfo_def connection_lost_def health_kept
      keepAlive_tick_def TriggerReload_def Let_def handles_ok_def split: option.split\<close>)
qed

lemma handles_ok_new: "NewClient cfg path = Inr c \<Longrightarrow> handles_ok c"
  by (auto simp: NewClient_def handles_ok_def names_match_def split: option.splits)

section \<open>Reloads converge\<close>

abbreviation create_all :: "wire_env \<Rightarrow> (nat \<times> u32) list \<Rightarrow> Client \<Rightarrow> Client" where
  "create_all W rs c \<equiv> foldl (\<lambda>c r. create_step W 0 (Some r) c) c rs"

lemma create_all_correct:
  fixes W :: wire_env
  assumes "distinct (map tc_Name (cl_creating c))" "length rs = length (cl_creating c)" "handles_ok c"
  defines "d \<equiv> create_all W rs c"
  shows "cl_creating d = [] \<and> cl_cfg d = cl_cfg c \<and> cl_configPath d = cl_configPath c \<and> handles_ok d \<and>
    (\<forall>n. map_option th_Tunnel (map_of (cl_tunnels d) n) =
       (case find (\<lambda>t. tc_Name t = n) (cl_creating c) of
          Some t \<Rightarrow> Some t | None \<Rightarrow> map_option th_Tunnel (map_of (cl_tunnels c) n)))"
  using assms(1-3) unfolding d_def
proof (induction rs arbitrary: c)
  case (Cons r rs)
  obtain t ts where ts: "cl_creating c = t # ts" using Cons.prems(2) by (cases "cl_creating c") auto
  obtain l p where r: "r = (l, p)" by force
  let ?c = "create_step W 0 (Some r) c"
  have c: "cl_creating ?c = ts" "cl_cfg ?c = cl_cfg c" "cl_configPath ?c = cl_configPath c"
    by (simp_all add: create_step_def ts r createTunnel_def sendTunnelInfo_def Let_def)
  have look: "map_option th_Tunnel (map_of (cl_tunnels ?c) m) =
       (if m = tc_Name t then Some t else map_option th_Tunnel (map_of (cl_tunnels c) m))" for m
    by (simp add: create_step_def ts r createTunnel_tunnels update_conv')
  have pre: "distinct (map tc_Name (cl_creating ?c))" "length rs = length (cl_creating ?c)"
    using Cons.prems(1,2) by (simp_all add: c ts)
  have fresh: "find (\<lambda>u. tc_Name u = tc_Name t) ts = None"
    using Cons.prems(1) by (auto simp: ts find_None_iff) (metis image_eqI)
  note IH = Cons.IH [OF pre handles_ok_create [OF Cons.prems(3)]]
  then show ?case
    using fresh by (simp add: c look ts split: option.split)
qed simp

lemma TunnelConfig_unchanged:
  "\<not> tunnel_changed t u \<Longrightarrow> tc_Name t = tc_Name u \<Longrightarrow> t = u"
  by (cases t; cases u) (simp add: tunnel_changed_def)

lemma map_of_filter_distinct:
  "distinct (map fst xs) \<Longrightarrow> map_of (filter P xs) n =
     (case map_of xs n of None \<Rightarrow> None | Some v \<Rightarrow> if P (n, v) then Some v else None)"
proof (induction xs)
  case (Cons x xs)
  then have "fst x \<notin> fst ` set (filter P xs)" by auto
  then have "map_of (filter P xs) (fst x) = None" by (simp add: map_of_eq_None_iff)
  with Cons show ?case by (cases x) (auto split: option.split)
qed simp

text \<open>The state after a successful reload, in the terms of the properties.\<close>

lemma reload_result:
  fixes W :: wire_env
  assumes "handles_ok c" "is_order Q" "LoadClientConfig yaml (readFile (cl_configPath c)) = Inr newCfg"
    "client_Validate newCfg = None" "cl_creating c = []"
  defines "c' \<equiv> ReloadTunnels W Q yaml readFile c" and "ts \<equiv> cc_Tunnels newCfg"
  shows "cl_cfg c' = newCfg" "cl_configPath c' = cl_configPath c"
    "cl_tunnels c' = filter (keeps (wanted ts)) (cl_tunnels c)" "distinct (map tc_Name (cl_creating c'))"
    "t \<in> set (cl_creating c') \<longleftrightarrow> missing ts (cl_tunnels c) t"
proof -
  have d: "distinct (map fst (cl_tunnels c))" using assms(1) by (simp add: handles_ok_def names_match_def)
  note o = order_facts [OF assms(2) d]
  let ?ns = "filter (\<lambda>x. fst x \<notin> fst ` set (filter (keeps (wanted ts)) (ro_handles Q (cl_tunnels c)))) (tunnels_by_name ts)"
  have c': "c' = (dropped W (filter (\<lambda>kv. \<not> keeps (wanted ts) kv) (ro_handles Q (cl_tunnels c))) c)
      \<lparr>cl_creating := map snd (ro_new Q ?ns), cl_cfg := newCfg\<rparr>"
    unfolding c'_def ReloadTunnels_def assms(3) apply_config_eq [OF o(2)] ts_def
    by (simp add: assms(4,5) Let_def dropped_def)
  have ms: "mset (ro_new Q ?ns) = mset ?ns" using assms(2) by (simp add: is_order_def)
  have names: "mset (map (tc_Name \<circ> snd) (ro_new Q ?ns)) = mset (map (tc_Name \<circ> snd) ?ns)"
    unfolding mset_map ms ..
  show "cl_cfg c' = newCfg" "cl_configPath c' = cl_configPath c"
    by (simp_all add: c' dropped_def)
  show "cl_tunnels c' = filter (keeps (wanted ts)) (cl_tunnels c)"
    using filter_not_names [OF d o(1), of "keeps (wanted ts)"] by (simp add: c' dropped_def)
  show "distinct (map tc_Name (cl_creating c'))"
    using missing_list(1) [OF o(2)] mset_eq_imp_distinct_iff [OF names] by (simp add: c' comp_def)
  show "t \<in> set (cl_creating c') \<longleftrightarrow> missing ts (cl_tunnels c) t"
    using missing_list(2) [OF o(2), of t ts] missing_order [OF o d] mset_eq_setD [OF ms] by (simp add: c')
qed

lemma reload_fixpoint:
  assumes "handles_ok c" "is_order Q" "LoadClientConfig yaml (readFile (cl_configPath c)) = Inr newCfg"
    "client_Validate newCfg = None" "cl_creating c = []" "cl_cfg c = newCfg"
    and all: "\<And>n. map_option th_Tunnel (map_of (cl_tunnels c) n) = wanted (cc_Tunnels newCfg) n"
  shows "ReloadTunnels W Q yaml readFile c = c"
proof -
  have d: "distinct (map fst (cl_tunnels c))" using assms(1) by (simp add: handles_ok_def names_match_def)
  note o = order_facts [OF assms(2) d]
  have keep: "keeps (wanted (cc_Tunnels newCfg)) kv" if kv: "kv \<in> set (cl_tunnels c)" for kv
  proof -
    have "map_of (cl_tunnels c) (fst kv) = Some (snd kv)" using kv d by simp
    then have "wanted (cc_Tunnels newCfg) (fst kv) = Some (th_Tunnel (snd kv))" using all [of "fst kv"] by simp
    then show ?thesis by (simp add: keeps_iff tunnel_changed_def)
  qed
  have gone: "filter (\<lambda>kv. \<not> keeps (wanted (cc_Tunnels newCfg)) kv) (ro_handles Q (cl_tunnels c)) = []"
    using keep o(1) by (simp add: filter_empty_conv)
  have "fst x \<in> fst ` set (filter (keeps (wanted (cc_Tunnels newCfg))) (ro_handles Q (cl_tunnels c)))"
    if "x \<in> set (tunnels_by_name (cc_Tunnels newCfg))" for x
  proof -
    have "wanted (cc_Tunnels newCfg) (fst x) = Some (snd x)"
      using that tunnels_by_name_distinct [of "cc_Tunnels newCfg"] by (metis map_of_eq_Some_iff prod.collapse tunnels_by_name_lookup)
    then obtain h where "map_of (cl_tunnels c) (fst x) = Some h" using all [of "fst x"] by auto
    then have "(fst x, h) \<in> set (cl_tunnels c)" by (rule map_of_SomeD)
    then show ?thesis using keep [of "(fst x, h)"] o(1) by force
  qed
  then have new: "filter (\<lambda>x. fst x \<notin> fst ` set (filter (keeps (wanted (cc_Tunnels newCfg))) (ro_handles Q (cl_tunnels c))))
      (tunnels_by_name (cc_Tunnels newCfg)) = []"
    unfolding filter_empty_conv by blast
  have "mset (ro_new Q []) = mset []" using assms(2) unfolding is_order_def by blast
  then have "ReloadTunnels W Q yaml readFile c = c\<lparr>cl_creating := [], cl_cfg := newCfg\<rparr>"
    unfolding ReloadTunnels_def assms(3) sum.case assms(4) option.case apply_config_eq [OF o(2)] gone new Let_def
    by (simp add: assms(5))
  then show ?thesis using assms(5,6) by (cases c) simp
qed


section \<open>Concrete clients\<close>

definition web_tunnel :: TunnelConfig where
  "web_tunnel = \<lparr>tc_Name = ''web'', tc_LocalIP = ''127.0.0.1'', tc_LocalPort = 8080, tc_RemotePort = 8501, tc_Timeout = 300\<rparr>"

definition demo_ccfg :: ClientConfig where
  "demo_ccfg = \<lparr>cc_ServerAddr = ''192.0.2.1'', cc_ServerPort = 7835, cc_Token = ''secret'', cc_HostKey = '''',
     cc_Project = ''demo'', cc_Region = '''', cc_Tunnels = [web_tunnel], cc_HealthCheckInterval = 30\<rparr>"

definition demo_order :: range_order where
  "demo_order = \<lparr>ro_handles = rev, ro_new = (\<lambda>xs. xs)\<rparr>"

definition demo_client :: Client where
  "demo_client = (case NewClient demo_ccfg ''client.yaml'' of Inr c \<Rightarrow> c | Inl _ \<Rightarrow> undefined)"

lemma demo_client_simps:
  "cl_tunnels demo_client = []" "cl_creating demo_client = []" "cl_closed demo_client = []" "cl_reloadChan demo_client = False" "cl_cfg demo_client = demo_ccfg"
  "handles_ok demo_client" "is_order demo_order" "client_Validate demo_ccfg = None"
  "cl_configPath demo_client = ''client.yaml''"
  "LoadClientConfig (\<lambda>_. Some demo_ccfg) (Some ''yaml'') = Inr demo_ccfg"
  by (simp_all add: demo_client_def NewClient_def demo_ccfg_def client_Validate_def web_tunnel_def handles_ok_def
      names_match_def is_order_def demo_order_def LoadClientConfig_def client_setDefaults_def)

abbreviation demo_reload :: "Client \<Rightarrow> Client" where
  "demo_reload \<equiv> ReloadTunnels demo_wire demo_order (\<lambda>_. Some demo_ccfg) (\<lambda>_. Some ''yaml'')"

lemma demo_wanted: "wanted (cc_Tunnels demo_ccfg) n = (if n = ''web'' then Some web_tunnel else None)"
  by (auto simp: wanted_def demo_ccfg_def web_tunnel_def)

theorem reload_correct_witness:
  "cl_tunnels (demo_reload demo_client) = [] \<and>
   (\<exists>new. mset (cl_creating (demo_reload demo_client)) = mset new \<and> web_tunnel \<in> set new)"
proof -
  have "missing (cc_Tunnels demo_ccfg) [] web_tunnel"
    by (simp add: missing_iff demo_wanted) (simp add: web_tunnel_def)
  then show ?thesis
    using reload_correct [of demo_client demo_order demo_wire "\<lambda>_. Some demo_ccfg" "\<lambda>_. Some ''yaml''"]
    by (auto simp: demo_client_simps Let_def)
qed

lemma demo_reload_creating: "cl_creating (demo_reload demo_client) = [web_tunnel]"
  by (simp add: ReloadTunnels_def demo_client_simps apply_config_def demo_order_def tunnels_by_name_def)
     (simp add: demo_ccfg_def)



text \<open>(C34) A client's table of tunnels is well formed: after any sequence of connection rounds, lost
  connections, granted and refused tunnels, health checks, keepalives and reloads, no name occurs twice,
  and every handle is the one of the tunnel it is stored under.\<close>

theorem client_handles_well_formed:
  assumes "NewClient cfg path = Inr c" "list_all client_event_ok es"
  shows "let hs = cl_tunnels (foldl (client_step W yaml) c es)
    in distinct (map fst hs) \<and> (\<forall>(n, h) \<in> set hs. tc_Name (th_Tunnel h) = n)"
proof -
  have "handles_ok (foldl (client_step W yaml) c es)"
    by (rule client.run_inv [OF handles_ok_new [OF assms(1)] assms(2)])
  then show ?thesis by (simp add: handles_ok_def names_match_def Let_def)
qed

lemma demo_NewClient: "NewClient demo_ccfg ''client.yaml'' = Inr demo_client"
  by (simp add: demo_client_def NewClient_def demo_client_simps)

theorem client_handles_well_formed_witness:
  "distinct (map fst (cl_tunnels (foldl (client_step demo_wire (\<lambda>_. Some demo_ccfg)) demo_client
     [Round (\<lambda>_ _. Some 0) [] True, Created 0 (Some (7, 8501)), Lost, ReloadTurn demo_order (\<lambda>_. None) False])))"
  using client_handles_well_formed [OF demo_NewClient, of
      "[Round (\<lambda>_ _. Some 0) [] True, Created 0 (Some (7, 8501)), Lost, ReloadTurn demo_order (\<lambda>_. None) False]"
      demo_wire "\<lambda>_. Some demo_ccfg"]
  by (simp add: demo_client_simps Let_def del: foldl_Cons)

end
