(* ===== verification/Status_Report.thy ===== *)
theory Status_Report
  imports Tunnel_Session "HOL-Library.Signed_Division" "HOL-Library.Multiset"
begin

text \<open>
  The server's status: the table of its sessions (\<open>activeConns\<close> and \<open>GetStatus\<close> in
  \<open>src/pkg/server/server.go\<close>) and the text \<open>ServerStatus.String\<close> prints of it (\<open>status.go\<close>).
  Strings are UTF-8 byte lists. \<open>Hours\<close>, \<open>Minutes\<close> and \<open>Seconds\<close> of a duration are taken exactly (Go
  computes them in floating point, which can differ within a microsecond before a boundary). The clock
  readings and the local time zone's offset are arguments. Of \<open>text/tabwriter\<close> the model has what the
  code uses: two spaces of padding, cells ended by tabs, and no escapes.
\<close>

section \<open>Durations and times\<close>

definition time_sub :: "gotime \<Rightarrow> gotime \<Rightarrow> duration" where
  "time_sub t u = max (- 9223372036854775808) (min max_int64 (t - u))"

fun join_with :: "string \<Rightarrow> string list \<Rightarrow> string" where
  "join_with sep [] = ''''"
| "join_with sep [s] = s"
| "join_with sep (s # ss) = s @ sep @ join_with sep ss"

definition duration_parts :: "duration \<Rightarrow> (int \<times> char) list" where
  "duration_parts d =
     (let days = d sdiv (86400 * second);
          hours = (d sdiv (3600 * second)) smod 24;
          minutes = (d sdiv (60 * second)) smod 60;
          seconds = (d sdiv second) smod 60
      in (if days > 0 then [(days, CHR ''d'')] else []) @
         (if hours > 0 \<or> days > 0 then [(hours, CHR ''h'')] else []) @
         (if minutes > 0 \<or> hours > 0 \<or> days > 0 then [(minutes, CHR ''m'')] else []) @
         [(seconds, CHR ''s'')])"

definition formatDuration :: "duration \<Rightarrow> string" where
  "formatDuration d = join_with '' '' (map (\<lambda>(n, u). dec_of_int n @ [u]) (duration_parts d))"

text \<open>The proleptic Gregorian date of a day, counted from 1 January of year 1.\<close>

definition leap :: "int \<Rightarrow> bool" where
  "leap y \<longleftrightarrow> y mod 4 = 0 \<and> (y mod 100 \<noteq> 0 \<or> y mod 400 = 0)"

fun month_of_day :: "int list \<Rightarrow> int \<Rightarrow> int \<times> int" where
  "month_of_day [] d = (1, d + 1)"
| "month_of_day (n # ns) d =
     (if d < n then (1, d + 1) else (case month_of_day ns (d - n) of (m, k) \<Rightarrow> (m + 1, k)))"

definition date_of_days :: "int \<Rightarrow> int \<times> int \<times> int" where
  "date_of_days n =
     (let n400 = n div 146097; r = n mod 146097;
          n100 = min 3 (r div 36524); r = r - n100 * 36524;
          n4 = r div 1461; r = r mod 1461;
          n1 = min 3 (r div 365); doy = r - n1 * 365;
          year = 400 * n400 + 100 * n100 + 4 * n4 + n1 + 1;
          (month, day) = month_of_day [31, if leap year then 29 else 28, 31, 30, 31, 30, 31, 31, 30, 31, 30, 31] doy
      in (year, month, day))"

definition pad_left :: "nat \<Rightarrow> char \<Rightarrow> string \<Rightarrow> string" where
  "pad_left n c s = replicate (n - length s) c @ s"

definition two_digits :: "int \<Rightarrow> string" where
  "two_digits n = pad_left 2 (CHR ''0'') (dec_of_int n)"

definition formatTime :: "(gotime \<Rightarrow> int) \<Rightarrow> gotime \<Rightarrow> string" where
  "formatTime zone t =
     (let local = t div second + zone t;
          (year, month, day) = date_of_days (local div 86400);
          minute = (local mod 86400) div 60
      in pad_left 4 (CHR ''0'') (dec_of_int year) @ ''-'' @ two_digits month @ ''-'' @ two_digits day @ '' '' @
         two_digits (minute div 60) @ '':'' @ two_digits (minute mod 60))"

section \<open>The tables\<close>

fun split_on :: "(char \<Rightarrow> bool) \<Rightarrow> string \<Rightarrow> string list" where
  "split_on P [] = [[]]"
| "split_on P (c # cs) =
     (if P c then [] # split_on P cs
      else (case split_on P cs of w # ws \<Rightarrow> (c # w) # ws | [] \<Rightarrow> [[c]]))"

text \<open>The number of runes of a valid UTF-8 text.\<close>

definition rune_count :: "string \<Rightarrow> nat" where
  "rune_count s = length (filter (\<lambda>c. \<not> (128 \<le> (of_char c :: nat) \<and> (of_char c :: nat) < 192)) s)"

text \<open>A cell belongs to a column if a tab ends it; a column is as wide as the widest of its cells in
  consecutive lines that have it.\<close>

definition has_column :: "nat \<Rightarrow> string list \<Rightarrow> bool" where
  "has_column j row \<longleftrightarrow> Suc j < length row"

definition column_width :: "string list list \<Rightarrow> nat \<Rightarrow> nat \<Rightarrow> nat" where
  "column_width rows i j =
     (let run = takeWhile (has_column j) (rev (take i rows)) @ takeWhile (has_column j) (drop i rows)
      in foldl (\<lambda>w row. max w (rune_count (row ! j) + 2)) 0 run)"

definition format_row :: "string list list \<Rightarrow> nat \<Rightarrow> string" where
  "format_row rows i =
     (let row = rows ! i
      in concat (map (\<lambda>j. if has_column j row
                          then row ! j @ replicate (column_width rows i j - rune_count (row ! j)) (CHR '' '')
                          else row ! j) [0..<length row]))"

definition tab_segment :: "string \<Rightarrow> string" where
  "tab_segment text =
     (let rows = map (split_on (\<lambda>c. c = CHR 0x09 \<or> c = CHR 0x0B)) (split_on (\<lambda>c. c = CHR 0x0A) text)
      in join_with [CHR 0x0A] (map (format_row rows) [0..<length rows]))"

definition tabwriter :: "string \<Rightarrow> string" where
  "tabwriter text = join_with [CHR 0x0A] (map tab_segment (split_on (\<lambda>c. c = CHR 0x0C) text))"

section \<open>The report\<close>

definition version :: string where "version = ''0.7.0''"

record 's ServerStatus =
  st_Uptime :: duration
  st_Connections :: "'s session list"
  st_Config :: ServerConfig

definition rune3 :: "nat \<Rightarrow> string" where
  "rune3 n = [char_of (0xE0 + n div 4096), char_of (0x80 + n div 64 mod 64), char_of (0x80 + n mod 64)]"

abbreviation nl :: string where "nl \<equiv> [CHR 0x0A]"
abbreviation tab :: string where "tab \<equiv> [CHR 0x09]"
abbreviation spaces :: "nat \<Rightarrow> string" where "spaces n \<equiv> replicate n (CHR '' '')"

definition ruler :: "nat \<Rightarrow> string" where
  "ruler n = concat (replicate n (rune3 0x2550))"

definition dash :: "string \<Rightarrow> string" where
  "dash s = (if s = '''' then ''-'' else s)"

definition totalTunnels :: "'s session list \<Rightarrow> int" where
  "totalTunnels conns = foldl (\<lambda>n s. n + int (length (co_Tunnels (ss_conn s)))) 0 conns"

definition activeTunnels :: "'s session list \<Rightarrow> int" where
  "activeTunnels conns =
     foldl (\<lambda>n s. foldl (\<lambda>n (port, a). if ti_State (ss_tunnels s a) = TunnelStateActive then n + 1 else n)
        n (co_Tunnels (ss_conn s))) 0 conns"

text \<open>Icon, colour and name of a tunnel's state.\<close>

definition state_display :: "int \<Rightarrow> string \<times> string \<times> string" where
  "state_display st =
     (if st = TunnelStateIdle then (rune3 0x25CB, CHR 0x1B # ''[37m'', ''IDLE'')
      else if st = TunnelStateError then (rune3 0x2717, CHR 0x1B # ''[31m'', ''DOWN'')
      else (rune3 0x25CF, CHR 0x1B # ''[32m'', ''UP''))"

definition tunnel_line :: "bool \<Rightarrow> 's TunnelInfo \<Rightarrow> string" where
  "tunnel_line is_last tunnel =
     (let (stateIcon, stateColor, stateDesc) = state_display (ti_State tunnel);
          resetColor = CHR 0x1B # ''[0m'';
          activeInfo = (if ti_State tunnel \<noteq> TunnelStateError \<and> sint (ti_ActiveConns tunnel) > 0
                        then '' ('' @ dec_of_int (sint (ti_ActiveConns tunnel)) @ '' active)'' else '''');
          tunnelName = (if ti_Name tunnel = '''' then ''tunnel-'' @ dec_of_nat (unat (ti_RemotePort tunnel))
                        else ti_Name tunnel);
          localAddr = (if ti_LocalAddr tunnel = '''' \<or> ti_LocalAddr tunnel = ''0.0.0.0'' then ''127.0.0.1''
                       else ti_LocalAddr tunnel);
          stateText = stateColor @ stateIcon @ '' '' @ stateDesc @ resetColor @ activeInfo;
          branch = (if is_last then rune3 0x2514 else rune3 0x251C)
      in ''  '' @ branch @ rune3 0x2500 @ rune3 0x2500 @ '' '' @
         tunnelName @ spaces (15 - rune_count tunnelName) @ '' :'' @ dec_of_nat (unat (ti_RemotePort tunnel)) @
         ''  '' @ rune3 0x2192 @ ''  '' @ localAddr @ tab @ stateText @ nl)"

definition session_block :: "((u32 \<times> nat) list \<Rightarrow> (u32 \<times> nat) list) \<Rightarrow> 's session \<Rightarrow> string" where
  "session_block order s =
     (let conn = ss_conn s; info = co_ClientInfo conn;
          projectRegion = (if ci_Project info \<noteq> ''''
             then ci_Project info @ (if ci_Region info \<noteq> '''' then '' ('' @ ci_Region info @ '')'' else '''')
             else '''');
          head = (if projectRegion \<noteq> '''' then ''  '' @ co_ID conn @ '' | '' @ projectRegion @ nl
                  else ''  '' @ co_ID conn @ nl);
          ports = map fst (order (co_Tunnels conn))
      in if co_Tunnels conn = [] then head @ ''  '' @ rune3 0x2514 @ rune3 0x2500 @ rune3 0x2500 @ '' (no tunnels)'' @ nl
         else head @
           concat (map (\<lambda>i. case map_of (co_Tunnels conn) (ports ! i) of
               Some a \<Rightarrow> tunnel_line (i = length ports - 1) (ss_tunnels s a) | None \<Rightarrow> '''') [0..<length ports]) @ nl)"

record report_env =
  rp_order :: "(u32 \<times> nat) list \<Rightarrow> (u32 \<times> nat) list"
  rp_zone :: "gotime \<Rightarrow> int"
  rp_clock :: "nat \<Rightarrow> gotime"   \<comment> \<open>the reading for the \<open>i\<close>-th connection\<close>

definition status_header :: "'s ServerStatus \<Rightarrow> string" where
  "status_header status =
     (let cfg = st_Config status; conns = st_Connections status; bar = rune3 0x2551; mid = rune3 0x2502
      in nl @ rune3 0x2554 @ ruler 78 @ rune3 0x2557 @ nl @
         bar @ spaces 26 @ ''TBORE SERVER v'' @ version @ spaces 33 @ bar @ nl @
         rune3 0x2560 @ ruler 78 @ rune3 0x2563 @ nl @
         bar @ ''  Status: Running      '' @ mid @ ''    Port: '' @ sc_BindAddr cfg @ '':'' @ dec_of_int (sc_Port cfg) @
         ''    '' @ mid @ ''    Uptime: '' @ formatDuration (st_Uptime status) @ spaces 8 @ bar @ nl @
         bar @ ''  Connections: '' @ dec_of_nat (length conns) @ ''/'' @ dec_of_int (sc_MaxConnections cfg) @
         ''   '' @ mid @ ''    Tunnels: '' @ dec_of_int (totalTunnels conns) @ ''/'' @
         dec_of_int (int64 (sc_MaxTunnels cfg * int (length conns))) @ spaces 8 @ mid @
         ''    Active: '' @ dec_of_int (activeTunnels conns) @ spaces 13 @ bar @ nl @
         rune3 0x255A @ ruler 78 @ rune3 0x255D @ nl)"

definition ServerStatus_String :: "report_env \<Rightarrow> 's ServerStatus \<Rightarrow> string" where
  "ServerStatus_String R status =
     (let conns = st_Connections status
      in if length conns = 0 then status_header status @ nl @ ''No active connections.'' @ nl
         else status_header status @ nl @ ''CONNECTION OVERVIEW'' @ nl @ ruler 79 @ nl @
           tabwriter (''CONN ID'' @ tab @ ''PROJECT'' @ tab @ ''REGION'' @ tab @ ''REMOTE ADDR'' @ nl @
             concat (map (\<lambda>s. let conn = ss_conn s; info = co_ClientInfo conn
               in co_ID conn @ tab @ dash (ci_Project info) @ tab @ dash (ci_Region info) @ tab @ co_RemoteAddr conn @ nl)
               conns)) @ nl @
           tabwriter (''CONNECT TIME'' @ tab @ ''TUNNELS'' @ tab @ ''UPTIME'' @ nl @
             concat (map (\<lambda>i. let conn = ss_conn (conns ! i)
               in formatTime (rp_zone R) (co_ConnectTime conn) @ tab @ dec_of_nat (length (co_Tunnels conn)) @ tab @
                  formatDuration (time_sub (rp_clock R i) (co_ConnectTime conn)) @ nl) [0..<length conns])) @ nl @
           ''DETAILED TUNNELS'' @ nl @ ruler 79 @ nl @
           concat (map (session_block (rp_order R)) conns))"

section \<open>Durations read back\<close>

fun unit_seconds :: "char \<Rightarrow> int" where
  "unit_seconds c = (if c = CHR ''d'' then 86400 else if c = CHR ''h'' then 3600 else if c = CHR ''m'' then 60 else 1)"

definition parse_word :: "string \<Rightarrow> int" where
  "parse_word w = (case parse_nat (butlast w) of None \<Rightarrow> 0 | Some n \<Rightarrow> int n * unit_seconds (last w))"

definition parse_duration :: "string \<Rightarrow> int" where
  "parse_duration s = sum_list (map parse_word (split_on (\<lambda>c. c = CHR '' '') s))"

lemma split_on_plain: "\<forall>c \<in> set w. \<not> P c \<Longrightarrow> split_on P w = [w]"
  by (induction w) simp_all

lemma split_on_word: "\<forall>c \<in> set w. \<not> P c \<Longrightarrow> P s \<Longrightarrow> split_on P (w @ s # r) = w # split_on P r"
  by (induction w) simp_all

lemma split_on_join:
  "ws \<noteq> [] \<Longrightarrow> \<forall>w \<in> set ws. \<forall>c \<in> set w. c \<noteq> s \<Longrightarrow> split_on (\<lambda>c. c = s) (join_with [s] ws) = ws"
  by (induction ws rule: induct_list012) (simp_all add: split_on_plain split_on_word)

lemma parse_word_dec: "0 \<le> n \<Longrightarrow> parse_word (dec_of_int n @ [u]) = n * unit_seconds u"
  by (simp add: parse_word_def dec_of_int_def parse_nat_dec)

lemma dec_of_int_no_space: "c \<in> set (dec_of_int n) \<Longrightarrow> c \<noteq> CHR '' ''"
  using dec_of_nat_digits [of c "nat n"] dec_of_nat_digits [of c "nat (- n)"]
  by (auto simp: dec_of_int_def is_digit_def split: if_splits)

lemma parse_format:
  assumes "\<And>n u. (n, u) \<in> set ps \<Longrightarrow> 0 \<le> n \<and> u \<noteq> CHR '' ''" "ps \<noteq> []"
  shows "parse_duration (join_with '' '' (map (\<lambda>(n, u). dec_of_int n @ [u]) ps)) =
    sum_list (map (\<lambda>(n, u). n * unit_seconds u) ps)"
proof -
  let ?ws = "map (\<lambda>(n, u). dec_of_int n @ [u]) ps"
  have "split_on (\<lambda>c. c = CHR '' '') (join_with '' '' ?ws) = ?ws"
    by (rule split_on_join) (use assms dec_of_int_no_space in auto)
  moreover have "map parse_word ?ws = map (\<lambda>(n, u). n * unit_seconds u) ps"
    using assms(1) by (auto simp: parse_word_dec)
  ultimately show ?thesis unfolding parse_duration_def by (simp only:)
qed

text \<open>For durations that are not negative the truncating operations are \<open>div\<close> and \<open>mod\<close>.\<close>

lemma duration_parts_nonneg:
  assumes "0 \<le> d"
  defines "t \<equiv> d div second"
  shows "duration_parts d =
    (let days = t div 86400; hours = t div 3600 mod 24; minutes = t div 60 mod 60; seconds = t mod 60
     in (if days > 0 then [(days, CHR ''d'')] else []) @
        (if hours > 0 \<or> days > 0 then [(hours, CHR ''h'')] else []) @
        (if minutes > 0 \<or> hours > 0 \<or> days > 0 then [(minutes, CHR ''m'')] else []) @ [(seconds, CHR ''s'')])"
proof -
  have q: "d sdiv k = d div k" if "0 < k" for k :: int
    using that assms(1) by (simp add: signed_divide_int_def sgn_if)
  have m: "x smod k = x mod k" if "0 < k" "0 \<le> x" for x k :: int
    using that by (simp add: signed_modulo_int_def signed_divide_int_def sgn_if minus_div_mult_eq_mod)
  have t: "d div (k * second) = t div k" if "0 < k" for k :: int
    using that by (subst mult.commute) (simp add: t_def zdiv_zmult2_eq)
  have "0 \<le> t" using assms(1) by (simp add: t_def pos_imp_zdiv_nonneg_iff)
  then have nn: "0 \<le> t div k" if "0 < k" for k :: int
    using that by (simp add: pos_imp_zdiv_nonneg_iff)
  have s: "d sdiv (k * second) = t div k" if "0 < k" for k :: int
    using q [of "k * second"] t [OF that] that by simp
  have "d sdiv second = t" using q [of second] by (simp add: t_def)
  then show ?thesis
    unfolding duration_parts_def using s [of 86400] s [of 3600] s [of 60]
    by (simp only: m nn \<open>0 \<le> t\<close> zero_less_numeral)
qed

lemma seconds_split:
  "t div 86400 * 86400 + t div 3600 mod 24 * 3600 + t div 60 mod 60 * 60 + t mod 60 = (t :: int)"
proof -
  have "t div 60 div 60 = t div 3600" "t div 3600 div 24 = t div 86400"
    using zdiv_zmult2_eq [of 60 t 60] zdiv_zmult2_eq [of 24 t 3600] by simp_all
  then show ?thesis
    using div_mult_mod_eq [of t 60] div_mult_mod_eq [of "t div 60" 60] div_mult_mod_eq [of "t div 3600" 24] by linarith
qed

lemma parts_value:
  assumes "0 \<le> days" "0 \<le> hours" "0 \<le> minutes"
  shows "sum_list (map (\<lambda>(n, u). n * unit_seconds u)
      ((if days > 0 then [(days, CHR ''d'')] else []) @ (if hours > 0 \<or> days > 0 then [(hours, CHR ''h'')] else []) @
       (if minutes > 0 \<or> hours > 0 \<or> days > 0 then [(minutes, CHR ''m'')] else []) @ [(secs, CHR ''s'')])) =
    days * 86400 + hours * 3600 + minutes * 60 + secs"
  using assms by auto

text \<open>(C37) An uptime can be read back: for every duration that is not negative, reading the days, hours,
  minutes and seconds of the printed text gives its whole seconds; units in front are left out only
  when they are zero, and the others stay below 24 and 60.\<close>

theorem formatDuration_round_trip:
  assumes "0 \<le> d"
  shows "parse_duration (formatDuration d) = d div second \<and>
    (\<forall>(n, u) \<in> set (duration_parts d). 0 \<le> n \<and> (u = CHR ''h'' \<longrightarrow> n < 24) \<and> (u \<in> {CHR ''m'', CHR ''s''} \<longrightarrow> n < 60))"
proof -
  define t where "t = d div second"
  have t: "0 \<le> t" using assms by (simp add: t_def pos_imp_zdiv_nonneg_iff)
  note parts = duration_parts_nonneg [OF assms, folded t_def, unfolded Let_def]
  have "\<forall>(n, u) \<in> set (duration_parts d). 0 \<le> n \<and> u \<noteq> CHR '' ''" and ne: "duration_parts d \<noteq> []"
    and small: "\<forall>(n, u) \<in> set (duration_parts d). 0 \<le> n \<and> (u = CHR ''h'' \<longrightarrow> n < 24) \<and> (u \<in> {CHR ''m'', CHR ''s''} \<longrightarrow> n < 60)"
    using t by (auto simp: parts)
  then have "parse_duration (formatDuration d) = sum_list (map (\<lambda>(n, u). n * unit_seconds u) (duration_parts d))"
    unfolding formatDuration_def by (intro parse_format) auto
  also have "\<dots> = t div 86400 * 86400 + t div 3600 mod 24 * 3600 + t div 60 mod 60 * 60 + t mod 60"
    unfolding parts by (rule parts_value) (use t in \<open>simp_all add: pos_imp_zdiv_nonneg_iff\<close>)
  also have "\<dots> = t" by (rule seconds_split)
  finally show ?thesis using small by (simp add: t_def)
qed

theorem formatDuration_round_trip_witness:
  "parse_duration (formatDuration (93784 * second + 5)) = 93784"
  using formatDuration_round_trip [of "93784 * second + 5"] by simp

section \<open>Totals\<close>

lemma foldl_plus: "foldl (\<lambda>n x. n + f x) (k :: int) xs = k + sum_list (map f xs)"
  by (induction xs arbitrary: k) simp_all

lemma foldl_counting: "foldl (\<lambda>n (p, a). if P a then n + 1 else n) (k :: int) xs = k + int (length (filter (P \<circ> snd) xs))"
  by (induction xs arbitrary: k) auto

lemma activeTunnels_eq:
  "activeTunnels conns = sum_list (map (\<lambda>s. int (length (filter ((\<lambda>a. ti_State (ss_tunnels s a) = TunnelStateActive) \<circ> snd)
     (co_Tunnels (ss_conn s))))) conns)"
  unfolding activeTunnels_def foldl_counting foldl_plus by simp

text \<open>The totals of the report respect the limits: for sessions in reachable states (in whatever
  numbers), active tunnels are at most the tunnels, and the tunnels at most \<open>MaxTunnels\<close> for each
  connection, the number the report shows beside them unless that product overflows.\<close>

theorem report_totals_bounded:
  assumes "0 \<le> sc_MaxTunnels cfg"
    and "\<And>s. s \<in> set conns \<Longrightarrow> \<exists>sid addr now blank. (session_trans cfg S W)\<^sup>*\<^sup>* (new_session sid addr now blank) s"
  shows "activeTunnels conns \<le> totalTunnels conns \<and> totalTunnels conns \<le> sc_MaxTunnels cfg * int (length conns)"
proof -
  have inv: "int (length (co_Tunnels (ss_conn s))) \<le> sc_MaxTunnels cfg" if s: "s \<in> set conns" for s
  proof -
    obtain sid addr now blank where "(session_trans cfg S W)\<^sup>*\<^sup>* (new_session sid addr now blank) s"
      using assms(2) [OF s] by blast
    then have "session_inv cfg s" using session.reachable_inv assms(1) by blast
    then show ?thesis using assms(1) by (simp add: session_inv_def)
  qed
  have total: "totalTunnels conns = sum_list (map (\<lambda>s. int (length (co_Tunnels (ss_conn s)))) conns)"
    by (simp add: totalTunnels_def foldl_plus)
  have "activeTunnels conns \<le> totalTunnels conns"
    unfolding activeTunnels_eq total by (rule sum_list_mono) simp
  moreover have "totalTunnels conns \<le> sum_list (map (\<lambda>_. sc_MaxTunnels cfg) conns)"
    unfolding total by (rule sum_list_mono) (rule inv)
  ultimately show ?thesis by (simp add: sum_list_triv mult.commute)
qed

theorem report_totals_bounded_witness:
  "totalTunnels [demo_new, session_step demo_scfg count_sem demo_wire demo_new (Request (demo_forward 8080) (demo_listen 8080))] \<le> 20"
proof -
  let ?s = "session_step demo_scfg count_sem demo_wire demo_new (Request (demo_forward 8080) (demo_listen 8080))"
  have "\<exists>sid addr now blank. (session_trans demo_scfg count_sem demo_wire)\<^sup>*\<^sup>* (new_session sid addr now blank) s"
    if "s \<in> set [demo_new, ?s]" for s
    using that demo_reach by (auto simp: demo_new_def)
  then have "totalTunnels [demo_new, ?s] \<le> sc_MaxTunnels demo_scfg * int (length [demo_new, ?s])"
    using report_totals_bounded [of demo_scfg "[demo_new, ?s]" count_sem demo_wire] by (simp add: demo_scfg_simp)
  then show ?thesis by (simp add: demo_scfg_simp)
qed

text \<open>Any state but idle and error is shown as up: a client can report any number as a tunnel's
  health; the server stores it, \<open>String\<close> calls it unknown, the counter of active tunnels leaves it out,
  and the report shows the tunnel in green as UP.\<close>

theorem unknown_state_shown_up:
  "let s = \<lparr>ss_conn = (ss_conn demo_new)\<lparr>co_Tunnels := [(8080, 0)]\<rparr>, ss_tunnels = (\<lambda>_. demo_blank), ss_nextTunnel = 1,
            ss_open = [], ss_nextListener = 0, ss_loops = [], ss_tasks = [], ss_panic = False\<rparr>;
       report = w_text demo_wire (encode_HealthReport \<lparr>hr_Port = 8080, hr_Status = 7\<rparr>);
       s' = snd (handleHealthReportRequest demo_wire report s)
   in ti_State (ss_tunnels s' 0) = 7 \<and> TunnelState_String (ti_State (ss_tunnels s' 0)) = ''unknown'' \<and>
      activeTunnels [s'] = 0 \<and> snd (snd (state_display (ti_State (ss_tunnels s' 0)))) = ''UP''"
proof -
  have "decode_HealthReport (encode_HealthReport \<lparr>hr_Port = 8080, hr_Status = 7\<rparr>) = Some \<lparr>hr_Port = 8080, hr_Status = 7\<rparr>"
    using parse_int64_dec [of 7] parse_uint32_dec [of 8080]
    by (simp add: decode_HealthReport_def encode_HealthReport_def find_field_def)
  moreover have "w_json demo_wire (w_text demo_wire j) = Some j" for j
    by (simp add: demo_wire_def scan_dec_of_nat)
  ultimately show ?thesis
    by (simp add: handleHealthReportRequest_def lookup_tunnel_def update_tunnel_def demo_blank_def new_TunnelInfo_def
        TunnelState_String_def state_display_def activeTunnels_def Let_def)
qed

section \<open>The table of sessions\<close>

text \<open>\<open>activeConns\<close> maps session identifiers to sessions (pointers, of any type here); a session is stored
  when its handshake is done, under the clock's nanoseconds, and deleted by the same identifier when
  its connection ends.\<close>

type_synonym 'v registry = "(string \<times> 'v) list"

definition store_session :: "nat \<Rightarrow> 'v \<Rightarrow> 'v registry \<Rightarrow> 'v registry" where
  "store_session nanos conn reg = AList.update (generateSessionID nanos) conn reg"

definition delete_session :: "nat \<Rightarrow> 'v registry \<Rightarrow> 'v registry" where
  "delete_session nanos reg = AList.delete (generateSessionID nanos) reg"

definition GetStatus ::
  "('s session registry \<Rightarrow> 's session registry) \<Rightarrow> gotime \<Rightarrow> gotime \<Rightarrow> ServerConfig \<Rightarrow> 's session registry \<Rightarrow>
     's ServerStatus" where
  "GetStatus order now started cfg reg =
     \<lparr>st_Uptime = time_sub now started, st_Connections = map snd (order reg), st_Config = cfg\<rparr>"

datatype 'v registry_event = Established nat 'v | Ended nat

fun registry_step :: "'v registry \<Rightarrow> 'v registry_event \<Rightarrow> 'v registry" where
  "registry_step reg (Established nanos conn) = store_session nanos conn reg"
| "registry_step reg (Ended nanos) = delete_session nanos reg"

text \<open>The sessions that are alive, with their start times.\<close>

fun alive_step :: "(nat \<times> 'v) list \<Rightarrow> 'v registry_event \<Rightarrow> (nat \<times> 'v) list" where
  "alive_step live (Established nanos conn) = live @ [(nanos, conn)]"
| "alive_step live (Ended nanos) = filter (\<lambda>x. fst x \<noteq> nanos) live"

fun starts :: "'v registry_event list \<Rightarrow> nat list" where
  "starts [] = []"
| "starts (Established nanos conn # es) = nanos # starts es"
| "starts (Ended nanos # es) = starts es"

lemma generateSessionID_inj: "generateSessionID m = generateSessionID n \<longleftrightarrow> m = n"
  by (auto simp: generateSessionID_def dest: hex_of_nat_inj)

lemma registry_alive:
  assumes "distinct (map fst live @ starts es)" "reg = map (\<lambda>(n, v). (generateSessionID n, v)) live"
  shows "foldl registry_step reg es = map (\<lambda>(n, v). (generateSessionID n, v)) (foldl alive_step live es)"
  using assms
proof (induction es arbitrary: live reg rule: starts.induct)
  case (2 nanos conn es)
  have "generateSessionID nanos \<notin> fst ` set reg"
    using 2(2,3) by (auto simp: generateSessionID_inj image_iff)
  then have "registry_step reg (Established nanos conn) = map (\<lambda>(n, v). (generateSessionID n, v)) (live @ [(nanos, conn)])"
    using 2(3) by (simp add: store_session_def AList_update_new)
  with 2(1) [of "live @ [(nanos, conn)]"] 2(2) show ?case by simp
next
  case (3 nanos es)
  have "AList.delete (generateSessionID nanos) (map (\<lambda>(n, v). (generateSessionID n, v)) live) =
      map (\<lambda>(n, v). (generateSessionID n, v)) (filter (\<lambda>x. fst x \<noteq> nanos) live)"
    by (induction live) (auto simp: generateSessionID_inj)
  moreover have "distinct (map fst (filter (\<lambda>x. fst x \<noteq> nanos) live) @ starts es)"
    using 3(2) by (auto simp: distinct_map_filter)
  ultimately show ?case using 3(1) 3(3) by (simp add: delete_session_def)
qed simp

text \<open>(C30) The status lists exactly the live sessions: as long as no two sessions start in the same
  nanosecond, after any sequence of starts and ends the connections of the report are, up to order, the
  sessions that started and have not ended.\<close>

theorem status_lists_live_sessions:
  assumes "distinct (starts es)" "\<And>xs. mset (order xs) = mset xs"
  shows "mset (st_Connections (GetStatus order now started cfg (foldl registry_step [] es))) =
    mset (map snd (foldl alive_step [] es))"
proof -
  have "mset (map snd (order reg)) = mset (map snd reg)" for reg :: "'a session registry"
    using assms(2) by simp
  moreover have "map snd (map (\<lambda>(n, v). (generateSessionID n, v)) xs) = map snd xs" for xs :: "(nat \<times> 'a session) list"
    by (induction xs) auto
  moreover have "foldl registry_step [] es = map (\<lambda>(n, v). (generateSessionID n, v)) (foldl alive_step [] es)"
    by (rule registry_alive) (use assms(1) in simp_all)
  ultimately show ?thesis by (simp only: GetStatus_def ServerStatus.simps)
qed

theorem status_lists_live_sessions_witness:
  "mset (st_Connections (GetStatus rev 9 1 demo_scfg (foldl registry_step [] [Established 5 demo_new, Established 6 demo_new, Ended 5])))
     = {#demo_new#}"
  using status_lists_live_sessions [of "[Established 5 demo_new, Established 6 demo_new, Ended 5]" rev 9 1 demo_scfg]
  by simp

end
