(* ===== verification/Control_Socket.thy ===== *)
theory Control_Socket
  imports Tunnel_Client Status_Report Gatekeeper
begin

text \<open>
  The command line and the control sockets, \<open>src/tbore.go\<close>: the dispatch on the first argument with the
  flag of each command, the two sockets' servers and the commands that talk to them. A socket delivers
  what was written, and one \<open>Read\<close> returns at most its buffer (\<open>take\<close>). \<open>flag\<close> and
  \<open>strings.TrimSpace\<close> are the standard library's, as far as the program uses them.
\<close>

section \<open>The command line\<close>

definition defaultSocketPath :: string where
  "defaultSocketPath = ''/var/run/tbore.sock''"

definition defaultClientSocketPath :: string where
  "defaultClientSocketPath = ''/var/run/tbore-client.sock''"

text \<open>\<open>FlagSet.Parse\<close> with one string flag: its value, or the exit code of an error.\<close>

definition split_eq :: "string \<Rightarrow> string \<times> string option" where
  "split_eq s =
     (case s of [] \<Rightarrow> ([], None)
      | c # r \<Rightarrow> (case dropWhile (\<lambda>d. d \<noteq> CHR ''='') r of
                    [] \<Rightarrow> (s, None)
                  | _ # v \<Rightarrow> (c # takeWhile (\<lambda>d. d \<noteq> CHR ''='') r, Some v)))"

fun parse_flag :: "string \<Rightarrow> string \<Rightarrow> string list \<Rightarrow> nat + string" where
  "parse_flag flag val [] = Inr val"
| "parse_flag flag val (s # args) =
     (if length s < 2 \<or> hd s \<noteq> CHR ''-'' then Inr val
      else if s = ''--'' then Inr val
      else
        (let name = (if s ! 1 = CHR ''-'' then drop 2 s else drop 1 s)
         in if name = [] \<or> hd name = CHR ''-'' \<or> hd name = CHR ''='' then Inl 2
            else (case split_eq name of
                    (n, given) \<Rightarrow>
                      if n \<noteq> flag then Inl (if n = ''help'' \<or> n = ''h'' then 0 else 2)
                      else (case given of
                              Some v \<Rightarrow> parse_flag flag v args
                            | None \<Rightarrow> (case args of [] \<Rightarrow> Inl 2 | v # args' \<Rightarrow> parse_flag flag v args')))))"

datatype command =
    RunServer string
  | RunClient string
  | RunReload string
  | RunStatus string
  | RunClientStatus string
  | PrintUsage
  | ExitCode nat

definition with_flag :: "(string \<Rightarrow> command) \<Rightarrow> string \<Rightarrow> string \<Rightarrow> string list \<Rightarrow> command" where
  "with_flag k flag dflt args = (case parse_flag flag dflt args of Inl n \<Rightarrow> ExitCode n | Inr v \<Rightarrow> k v)"

text \<open>\<open>main\<close> on \<open>os.Args\<close>.\<close>

definition main :: "string list \<Rightarrow> command" where
  "main osArgs =
     (if length osArgs < 2 then PrintUsage
      else
        (let cmd = osArgs ! 1; rest = drop 2 osArgs
         in if cmd = ''server'' then with_flag RunServer ''c'' ''server.yaml'' rest
            else if cmd = ''client'' then with_flag RunClient ''c'' ''client.yaml'' rest
            else if cmd = ''reload'' then with_flag RunReload ''s'' defaultClientSocketPath rest
            else if cmd = ''status'' then with_flag RunStatus ''s'' defaultSocketPath rest
            else if cmd = ''client-status'' then with_flag RunClientStatus ''s'' defaultClientSocketPath rest
            else PrintUsage))"

definition printUsage :: string where
  "printUsage =
     ''tbore v'' @ version @ nl @
     ''Usage:'' @ nl @
     ''  tbore server -c <config.yaml>'' @ nl @
     ''  tbore client -c <config.yaml>'' @ nl @
     ''  tbore reload [-s <socket_path>]'' @ nl @
     ''  tbore status [-s <socket_path>]'' @ nl @
     ''  tbore client-status [-s <socket_path>]'' @ nl"

section \<open>Starting\<close>

datatype 'e fatal = LoadFailed load_error | CreateFailed 'e

definition runServer ::
  "'d store_env \<Rightarrow> ('k, 'g, 'p) key_env \<Rightarrow> 's semaphore \<Rightarrow> (string \<Rightarrow> bool) \<Rightarrow> 'k option \<Rightarrow> gotime \<Rightarrow>
     (string \<Rightarrow> ServerConfig option) \<Rightarrow> string \<Rightarrow> file_system \<Rightarrow>
     (server_error fatal + ('d, 's, 'g) Server) \<times> file_system" where
  "runServer E K S mkdir gen now yaml configPath fs =
     (case LoadServerConfig yaml (os_ReadFile fs configPath) of
        Inl err \<Rightarrow> (Inl (LoadFailed err), fs)
      | Inr cfg \<Rightarrow>
          (case NewServer E K S mkdir gen now cfg fs of
             (Inl err, fs') \<Rightarrow> (Inl (CreateFailed err), fs')
           | (Inr srv, fs') \<Rightarrow> (Inr srv, fs')))"

definition runClient ::
  "(string \<Rightarrow> ClientConfig option) \<Rightarrow> string \<Rightarrow> file_system \<Rightarrow> client_error fatal + Client" where
  "runClient yaml configPath fs =
     (case LoadClientConfig yaml (os_ReadFile fs configPath) of
        Inl err \<Rightarrow> Inl (LoadFailed err)
      | Inr cfg \<Rightarrow> (case NewClient cfg configPath of Inl err \<Rightarrow> Inl (CreateFailed err) | Inr cli \<Rightarrow> Inr cli))"

section \<open>The sockets\<close>

text \<open>The white space \<open>TrimSpace\<close> removes, in UTF-8.\<close>

definition wide_spaces :: "string list" where
  "wide_spaces =
     [[CHR 0xC2, CHR 0x85], [CHR 0xC2, CHR 0xA0]] @
     map rune3 ([0x1680] @ [0x2000..<0x200B] @ [0x2028, 0x2029, 0x202F, 0x205F, 0x3000])"

definition space_runes :: "string list" where
  "space_runes = [[CHR 0x09], [CHR 0x0A], [CHR 0x0B], [CHR 0x0C], [CHR 0x0D], [CHR '' '']] @ wide_spaces"

fun strip_prefix :: "string list \<Rightarrow> string \<Rightarrow> string option" where
  "strip_prefix [] s = None"
| "strip_prefix (w # ws) s =
     (if w \<noteq> [] \<and> take (length w) s = w then Some (drop (length w) s) else strip_prefix ws s)"

lemma strip_prefix_shorter: "strip_prefix ws s = Some t \<Longrightarrow> length t < length s"
proof (induction ws s rule: strip_prefix.induct)
  case (2 w ws s)
  show ?case
  proof (cases "w \<noteq> [] \<and> take (length w) s = w")
    case True
    then have "s \<noteq> []" by auto
    then show ?thesis using True 2(2) by auto
  next
    case False
    then show ?thesis using 2 by auto
  qed
qed simp

function trim_front :: "string list \<Rightarrow> string \<Rightarrow> string" where
  "trim_front ws s = (case strip_prefix ws s of None \<Rightarrow> s | Some t \<Rightarrow> trim_front ws t)"
  by pat_completeness auto
termination
  by (relation "measure (\<lambda>(ws, s). length s)") (auto dest: strip_prefix_shorter)

declare trim_front.simps [simp del]

definition TrimSpace :: "string \<Rightarrow> string" where
  "TrimSpace s = rev (trim_front (map rev space_runes) (rev (trim_front space_runes s)))"

definition status_line :: "tunnel_status \<Rightarrow> string" where
  "status_line t =
     (let active = (if ts_Active t then ''ACTIVE'' else ''INACTIVE'')
      in ts_Name t @ '': :'' @ dec_of_nat (unat (ts_RemotePort t)) @ '' -> '' @ ts_LocalIP t @ '':'' @
         dec_of_int (ts_LocalPort t) @ '' ['' @ active @ '']'' @ nl)"

text \<open>One connection to the client's control socket (\<open>startClientControlServer\<close>): \<open>None\<close> when the read
  fails, then nothing is answered.\<close>

definition client_control ::
  "((string \<times> TunnelHandle) list \<Rightarrow> (string \<times> TunnelHandle) list) \<Rightarrow> string option \<Rightarrow> Client \<Rightarrow> string \<times> Client" where
  "client_control order input cli =
     (case input of
        None \<Rightarrow> ('''', cli)
      | Some s \<Rightarrow>
          (let command = TrimSpace (take 1024 s)
           in if command = ''reload'' then (''Reload triggered'' @ nl, TriggerReload cli)
              else if command = ''status'' then (concat (map status_line (GetTunnelStatus order cli)), cli)
              else (''Unknown command'' @ nl, cli)))"

text \<open>One connection to the server's status socket (\<open>startStatusServer\<close>).\<close>

definition status_server ::
  "report_env \<Rightarrow> ('s session registry \<Rightarrow> 's session registry) \<Rightarrow> gotime \<Rightarrow> ('d, 'm, 'g) Server \<Rightarrow>
     's session registry \<Rightarrow> string" where
  "status_server R order now srv reg =
     ServerStatus_String R (GetStatus order now (srv_started srv) (srv_cfg srv) reg)"

text \<open>The commands: what they print, from one read of the answer. An answer that is empty is an end of
  file, an error.\<close>

definition read_once :: "nat \<Rightarrow> string \<Rightarrow> string option" where
  "read_once n answer = (if answer = '''' then None else Some (take n answer))"

definition runReload ::
  "((string \<times> TunnelHandle) list \<Rightarrow> (string \<times> TunnelHandle) list) \<Rightarrow> Client \<Rightarrow> string option \<times> Client" where
  "runReload order cli =
     (case client_control order (Some ''reload'') cli of (answer, cli') \<Rightarrow> (read_once 1024 answer, cli'))"

definition runClientStatus ::
  "((string \<times> TunnelHandle) list \<Rightarrow> (string \<times> TunnelHandle) list) \<Rightarrow> Client \<Rightarrow> string option \<times> Client" where
  "runClientStatus order cli =
     (case client_control order (Some ''status'') cli of (answer, cli') \<Rightarrow> (read_once 4096 answer, cli'))"

definition runStatus ::
  "report_env \<Rightarrow> ('s session registry \<Rightarrow> 's session registry) \<Rightarrow> gotime \<Rightarrow> ('d, 'm, 'g) Server \<Rightarrow>
     's session registry \<Rightarrow> string option" where
  "runStatus R order now srv reg = read_once 65536 (status_server R order now srv reg)"

section \<open>The command line\<close>

text \<open>The command line means what the usage says: each command takes its configuration file or socket
  path from its flag, in both spellings and whatever the path is, and has its default without one; a
  flag without its argument or an unknown flag ends the program, and everything else prints the usage.\<close>

theorem command_line_correct:
  "main [prog] = PrintUsage \<and>
   main [prog, ''server''] = RunServer ''server.yaml'' \<and> main [prog, ''client''] = RunClient ''client.yaml'' \<and>
   main [prog, ''server'', ''-c'', path] = RunServer path \<and> main [prog, ''client'', ''-c='' @ path] = RunClient path \<and>
   main [prog, ''client'', ''--c'', path] = RunClient path \<and>
   main [prog, ''reload''] = RunReload defaultClientSocketPath \<and> main [prog, ''reload'', ''-s'', path] = RunReload path \<and>
   main [prog, ''status''] = RunStatus defaultSocketPath \<and> main [prog, ''status'', ''-s='' @ path] = RunStatus path \<and>
   main [prog, ''client-status'', ''-s'', path] = RunClientStatus path \<and>
   main [prog, ''server'', ''-c''] = ExitCode 2 \<and> main [prog, ''server'', ''-s'', path] = ExitCode 2 \<and>
   main [prog, ''server'', ''-h''] = ExitCode 0 \<and> main [prog, ''stop''] = PrintUsage"
  by (simp add: main_def with_flag_def split_eq_def Let_def)

section \<open>Commands over the socket\<close>

definition ascii_space :: "char \<Rightarrow> bool" where
  "ascii_space c \<longleftrightarrow> c \<in> {CHR 0x09, CHR 0x0A, CHR 0x0B, CHR 0x0C, CHR 0x0D, CHR '' ''}"

lemma strip_ascii:
  "ascii_space c \<Longrightarrow> strip_prefix space_runes (c # s) = Some s"
  "ascii_space c \<Longrightarrow> strip_prefix (map rev space_runes) (c # s) = Some s"
  by (auto simp: ascii_space_def space_runes_def)

lemma trim_ascii:
  "list_all ascii_space ws \<Longrightarrow> trim_front space_runes (ws @ s) = trim_front space_runes s"
  "list_all ascii_space ws \<Longrightarrow> trim_front (map rev space_runes) (ws @ s) = trim_front (map rev space_runes) s"
  by (induction ws) (simp_all add: trim_front.simps [of _ "_ # _"] strip_ascii)

text \<open>The first byte of every white space rune, and the last one.\<close>

definition space_edge :: "char \<Rightarrow> bool" where
  "space_edge c \<longleftrightarrow> 128 \<le> (of_char c :: nat) \<or> ascii_space c"

lemma strip_plain:
  assumes "\<And>w. w \<in> set ws \<Longrightarrow> w \<noteq> [] \<Longrightarrow> hd w \<noteq> c"
  shows "strip_prefix ws (c # s) = None"
  using assms
proof (induction ws)
  case (Cons w ws)
  have "take (length w) (c # s) \<noteq> w" if "w \<noteq> []"
    using Cons.prems [of w] that by (cases w) auto
  then show ?case using Cons by auto
qed simp

lemma space_runes_edges:
  assumes "w \<in> set space_runes"
  shows "space_edge (hd w)" "space_edge (hd (rev w))"
proof -
  have "list_all (\<lambda>w. space_edge (hd w) \<and> space_edge (hd (rev w))) wide_spaces"
    by (simp add: wide_spaces_def space_edge_def rune3_def upt_rec)
  then show "space_edge (hd w)" "space_edge (hd (rev w))"
    using assms by (auto simp: space_runes_def list_all_iff space_edge_def ascii_space_def)
qed

lemma trim_plain:
  "\<not> space_edge c \<Longrightarrow> trim_front space_runes (c # s) = c # s"
  "\<not> space_edge c \<Longrightarrow> trim_front (map rev space_runes) (c # s) = c # s"
proof -
  assume "\<not> space_edge c"
  then have "strip_prefix space_runes (c # s) = None" "strip_prefix (map rev space_runes) (c # s) = None"
    by (auto intro!: strip_plain dest: space_runes_edges)
  then show "trim_front space_runes (c # s) = c # s" "trim_front (map rev space_runes) (c # s) = c # s"
    by (simp_all add: trim_front.simps)
qed

lemma TrimSpace_word:
  assumes "list_all ascii_space ws" "list_all ascii_space ws'" "w \<noteq> []" "\<not> space_edge (hd w)" "\<not> space_edge (last w)"
  shows "TrimSpace (ws @ w @ ws') = w"
proof -
  obtain c r where w: "w = c # r" using assms(3) by (cases w) auto
  obtain r' d where w': "w = r' @ [d]" using assms(3) by (cases w rule: rev_cases) auto
  have "trim_front space_runes (ws @ w @ ws') = w @ ws'"
    using trim_ascii(1) [OF assms(1), of "w @ ws'"] trim_plain(1) [of c "r @ ws'"] assms(4) by (simp add: w)
  moreover have "trim_front (map rev space_runes) (rev ws' @ rev w) = rev w"
    using trim_ascii(2) [of "rev ws'" "rev w"] assms(2,5) trim_plain(2) [of d "rev r'"] by (simp add: w' list_all_iff)
  ultimately show ?thesis by (simp add: TrimSpace_def)
qed

lemma reload_chars: "\<not> space_edge (hd ''reload'')" "\<not> space_edge (last ''reload'')" "\<not> space_edge (hd ''status'')" "\<not> space_edge (last ''status'')"
  by (simp_all add: space_edge_def ascii_space_def)

lemma client_control_reload:
  "client_control order (Some ''reload'') c = (''Reload triggered'' @ nl, TriggerReload c)"
  "client_control order (Some ''status'') c = (concat (map status_line (GetTunnelStatus order c)), c)"
  using TrimSpace_word [of "[]" "[]" "''reload''"] TrimSpace_word [of "[]" "[]" "''status''"] reload_chars
  by (simp_all add: client_control_def Let_def)

lemma reload_keeps_channel: "cl_reloadChan (ReloadTunnels W Q yaml readFile c) = cl_reloadChan c"
proof -
  have "cl_reloadChan (snd (foldl (reload_visit W) s hs)) = cl_reloadChan (snd s)" for s hs
    by (induction hs arbitrary: s)
       (auto simp: reload_visit_def drop_tunnel_def cancelPortForward_def Let_def split: prod.splits option.splits)
  then show ?thesis
    by (simp add: ReloadTunnels_def apply_config_def case_prod_beta split: sum.split option.split)
qed

text \<open>(C31) Reload requests are carried out and coalesce: however often \<open>tbore reload\<close> is run (each run
  reports success), the next turn of the reload loop reloads the configuration exactly once, and the
  turn after it does nothing; white space around the command on the socket is ignored.\<close>

theorem reload_command_coalesces:
  assumes "0 < n" "list_all ascii_space ws" "list_all ascii_space ws'" "length (ws @ ''reload'' @ ws') \<le> 1024"
  shows "let c1 = ((\<lambda>c. snd (runReload order c)) ^^ n) c;
             c2 = ReloadTunnels W Q yaml readFile (c\<lparr>cl_reloadChan := False\<rparr>)
    in fst (runReload order c) = Some (''Reload triggered'' @ nl) \<and>
       reloadLoop_turn W Q yaml readFile False c1 = (True, c2) \<and>
       reloadLoop_turn W Q yaml readFile False c2 = (True, c2) \<and>
       client_control order (Some (ws @ ''reload'' @ ws')) c = (''Reload triggered'' @ nl, TriggerReload c)"
proof -
  have run: "runReload order c = (Some (''Reload triggered'' @ nl), c\<lparr>cl_reloadChan := True\<rparr>)" for c
    by (simp add: runReload_def client_control_reload read_once_def TriggerReload_def)
  have "((\<lambda>c. snd (runReload order c)) ^^ n) c = c\<lparr>cl_reloadChan := True\<rparr>"
    using assms(1) by (induction n rule: nat_induct_non_zero) (simp_all add: run)
  moreover have "client_control order (Some (ws @ ''reload'' @ ws')) c = (''Reload triggered'' @ nl, TriggerReload c)"
    using TrimSpace_word [OF assms(2,3), of "''reload''"] reload_chars assms(4) by (simp add: client_control_def Let_def)
  ultimately show ?thesis
    by (simp add: run reloadLoop_turn_def reload_keeps_channel Let_def)
qed

theorem reload_command_coalesces_witness:
  "fst (runReload id demo_client) = Some (''Reload triggered'' @ nl) \<and>
   reloadLoop_turn demo_wire demo_order (\<lambda>_. Some demo_ccfg) (\<lambda>_. Some ''yaml'') False
     (snd (runReload id (snd (runReload id demo_client)))) =
   (True, demo_reload (demo_client\<lparr>cl_reloadChan := False\<rparr>))"
  using reload_command_coalesces [where n = 2 and ws = "[]" and ws' = nl and W = demo_wire and
      Q = demo_order and yaml = "\<lambda>_. Some demo_ccfg" and readFile = "\<lambda>_. Some ''yaml''" and c = demo_client and order = id]
  by (simp add: ascii_space_def numeral_2_eq_2 Let_def)

text \<open>\<open>tbore client-status\<close> prints a line for each tunnel, cut at 4096 bytes, which is less than the
  client sent when it has many tunnels; without any tunnel the client writes nothing, and the command
  fails with an end of file instead of printing an empty status.\<close>

theorem client_status_output:
  "runClientStatus order c =
     (if GetTunnelStatus order c = [] then None
      else Some (take 4096 (concat (map status_line (GetTunnelStatus order c)))), c)"
  by (auto simp: runClientStatus_def client_control_reload read_once_def status_line_def Let_def split: list.split)

end
