(* ===== verification/End_To_End.thy ===== *)
theory End_To_End
  imports Tunnel_Client Relay
begin

text \<open>
  The client (\<open>src/pkg/client/client.go\<close>) and the server (\<open>src/pkg/server/server.go\<close>) together: what the
  requests one sends do to the session the other keeps, from the creation of a tunnel to the local
  service a user's connection ends up at, and the health of tunnels and reloads seen from the server.
\<close>

section \<open>Requests and their handlers\<close>

lemma SplitHostPort_length: "SplitHostPort s = Inr (h, p) \<Longrightarrow> length h \<le> length s"
  by (auto simp: SplitHostPort_def Let_def split: option.splits if_splits)

text \<open>A tunnel whose settings the messages can carry: ASCII names and 64-bit numbers.\<close>

definition plain_tunnel :: "TunnelConfig \<Rightarrow> bool" where
  "plain_tunnel t \<longleftrightarrow> ascii (tc_Name t) \<and> ascii (tc_LocalIP t) \<and>
     int64 (tc_LocalPort t) = tc_LocalPort t \<and> int64 (tc_Timeout t) = tc_Timeout t \<and> length (host_port t) < 2 ^ 32"

lemma parse_int64_int64: "int64 i = i \<Longrightarrow> parse_int64 (dec_of_int i) = Some i"
  using int64_range [of i] by (intro parse_int64_dec) auto

lemma dec_of_nat_int: "dec_of_nat n = dec_of_int (int n)"
  by (simp add: dec_of_int_def)

lemma parse_int64_port: "parse_int64 (dec_of_nat (unat (p :: u32))) \<noteq> None"
proof -
  have "uint p < 4294967296" using unsigned_less [where w = p and 'a = int] by simp
  moreover have "0 \<le> uint p" by simp
  ultimately have "parse_int64 (dec_of_int (uint p)) = Some (uint p)" by (intro parse_int64_dec) linarith+
  then show ?thesis by (subst dec_of_nat_int) simp
qed

lemma ascii_names: "ascii ''port''" "ascii ''name''" "ascii ''local_ip''" "ascii ''local_port''" "ascii ''timeout''" "ascii ''status''"
  by (simp_all add: ascii_def)

lemma tunnel_info_read:
  assumes "wire_laws W" "plain_tunnel t"
  shows "Option.bind (w_json W (w_text W (encode_TunnelInfo (tunnel_info t p)))) decode_TunnelInfo = Some (tunnel_info t p)"
proof -
  have n: "parse_int64 (dec_of_int (tc_LocalPort t)) = Some (tc_LocalPort t)"
    "parse_int64 (dec_of_int (tc_Timeout t)) = Some (tc_Timeout t)"
    using assms(2) by (simp_all add: plain_tunnel_def parse_int64_int64)
  have "plain_json (encode_TunnelInfo (tunnel_info t p))"
    using assms(2) n parse_int64_port [of p]
    by (simp add: encode_TunnelInfo_def tunnel_info_def plain_tunnel_def ascii_names)
  then have "w_json W (w_text W (encode_TunnelInfo (tunnel_info t p))) = Some (encode_TunnelInfo (tunnel_info t p))"
    using assms(1) by (simp add: wire_laws_def)
  then show ?thesis
    using n by (simp add: decode_TunnelInfo_def encode_TunnelInfo_def tunnel_info_def find_field_def parse_uint32_dec)
qed

lemma health_report_read:
  assumes "wire_laws W" "st \<in> {0, 2}"
  shows "Option.bind (w_json W (w_text W (encode_HealthReport \<lparr>hr_Port = p, hr_Status = st\<rparr>))) decode_HealthReport =
    Some \<lparr>hr_Port = p, hr_Status = st\<rparr>"
proof -
  have n: "parse_int64 (dec_of_int st) = Some st"
    using assms(2) by (intro parse_int64_dec) auto
  have "plain_json (encode_HealthReport \<lparr>hr_Port = p, hr_Status = st\<rparr>)"
    using n parse_int64_port [of p] by (simp add: encode_HealthReport_def ascii_names)
  then have "w_json W (w_text W (encode_HealthReport \<lparr>hr_Port = p, hr_Status = st\<rparr>)) =
      Some (encode_HealthReport \<lparr>hr_Port = p, hr_Status = st\<rparr>)"
    using assms(1) by (simp add: wire_laws_def)
  then show ?thesis
    using n by (simp add: decode_HealthReport_def encode_HealthReport_def find_field_def parse_uint32_dec)
qed

text \<open>How the server dispatches what the client sends.\<close>

lemma handle_client_requests:
  "handle_request cfg S W V \<lparr>rq_Type = ''tbore-tunnel-info'', rq_Payload = payload\<rparr> s = handleTunnelInfoRequest W payload s"
  "handle_request cfg S W V \<lparr>rq_Type = ''tbore-health-report'', rq_Payload = payload\<rparr> s = handleHealthReportRequest W payload s"
  "handle_request cfg S W V \<lparr>rq_Type = ''cancel-tcpip-forward'', rq_Payload = payload\<rparr> s = handleCancelForwardRequest W payload s"
  by (simp_all add: handle_request_def)

text \<open>The last request a client sent.\<close>

definition last_sent :: "Client \<Rightarrow> request" where
  "last_sent c = last (cl_sent c)"

lemma last_sent_info:
  "last_sent (createTunnel W (Some (l, p)) t c) =
     \<lparr>rq_Type = ''tbore-tunnel-info'', rq_Payload = w_text W (encode_TunnelInfo (tunnel_info t p))\<rparr>"
  by (simp add: last_sent_def createTunnel_def sendTunnelInfo_def send_request_def Let_def)

lemma last_sent_health:
  "last_sent (checkTunnelHealth W dial t c) =
     \<lparr>rq_Type = ''tbore-health-report'', rq_Payload = w_text W (encode_HealthReport
        \<lparr>hr_Port = tc_RemotePort t, hr_Status = (if dial (host_port t) then 0 else 2)\<rparr>)\<rparr>"
  by (simp add: last_sent_def checkTunnelHealth_def reportTunnelHealth_def send_request_def Let_def)

text \<open>(C4) A user's connection reaches the configured service: when the client's tunnel was granted port
  \<open>p\<close> and the server has handled the tunnel-info request the client then sends, the server's tunnel
  carries the configured name, address and timeout, no other tunnel changed, and for every user the
  channel the server opens makes the client dial exactly the configured local address, whatever it is.\<close>

theorem user_reaches_service:
  assumes laws: "wire_laws W" and t: "plain_tunnel t" and p: "lookup_tunnel p s = Some a"
    and user: "length userAddr < 2 ^ 32"
  shows "let (r, s') = handle_request cfg S W V (last_sent (createTunnel W (Some (l, p)) t c)) s
    in r = Reply True '''' \<and>
       ss_tunnels s' a = (ss_tunnels s a)\<lparr>ti_Name := tc_Name t, ti_LocalAddr := host_port t,
         ti_ConnTimeout := seconds (tc_Timeout t)\<rparr> \<and>
       (\<forall>b. b \<noteq> a \<longrightarrow> ss_tunnels s' b = ss_tunnels s b) \<and>
       handleServerChannel W dial accept_ok (channel_payload W (ti_LocalAddr (ss_tunnels s' a)) p userAddr) =
         (if dial (host_port t) then if accept_ok then Relays (host_port t) else AcceptFailed else Rejected)"
proof -
  have "length (fst (case SplitHostPort userAddr of Inl _ \<Rightarrow> ('''', '''') | Inr hp \<Rightarrow> hp)) \<le> length userAddr"
    by (cases "SplitHostPort userAddr") (auto dest: SplitHostPort_length)
  then obtain host port where "w_channel W (channel_payload W (host_port t) p userAddr) = (host_port t, p, host, port)"
    using laws t user by (simp add: channel_payload_def wire_laws_def plain_tunnel_def Let_def case_prod_beta)
  then have "handleServerChannel W dial accept_ok (channel_payload W (host_port t) p userAddr) =
      (if dial (host_port t) then if accept_ok then Relays (host_port t) else AcceptFailed else Rejected)"
    by (simp add: handleServerChannel_def)
  then show ?thesis
    using tunnel_info_read [OF laws t, of p] p
    by (simp add: last_sent_info handle_client_requests handleTunnelInfoRequest_def update_tunnel_def
        tunnel_info_def host_port_def Let_def)
qed

text \<open>No reachable session has a tunnel on port 0.\<close>

lemma forward_lookup:
  assumes "\<And>laddr. listen = Some laddr \<Longrightarrow> port_of_addr laddr \<noteq> q"
  shows "lookup_tunnel q (snd (handleForwardRequest cfg S W listen payload s)) = lookup_tunnel q s"
proof (cases listen)
  case None
  then show ?thesis by (simp add: handleForwardRequest_def case_prod_beta)
next
  case (Some laddr)
  then show ?thesis
    using assms by (simp add: handleForwardRequest_def case_prod_beta Let_def lookup_tunnel_def update_conv')
qed

lemma cancel_lookup:
  "lookup_tunnel q s = None \<Longrightarrow> lookup_tunnel q (snd (handleCancelForwardRequest W payload s)) = None"
  by (cases "w_forward W payload")
     (simp add: handleCancelForwardRequest_def lookup_tunnel_def close_listener_simps delete_conv' Let_def split: option.split)

lemma no_tunnel_zero:
  assumes "(session_trans cfg S W)\<^sup>*\<^sup>* (new_session sid addr now blank) s"
  shows "lookup_tunnel 0 s = None"
  using assms
proof (induction rule: rtranclp_induct)
  case base
  then show ?case by (simp add: new_session_def lookup_tunnel_def)
next
  case (step s t)
  then obtain e where e: "event_possible W s e" "t = session_step cfg S W s e"
    by (auto simp: session_trans_def)
  have same: "lookup_tunnel 0 u = None" if "same_resources s u" for u
    using that step.IH by (simp add: same_resources_def lookup_tunnel_def)
  show ?case
  proof (cases e)
    case (Request req V)
    have "lookup_tunnel 0 (snd (handleForwardRequest cfg S W (re_listen V) (rq_Payload req) s)) = None"
      by (subst forward_lookup) (use step.IH e(1) Request in \<open>simp_all add: listen_ok_def\<close>)
    moreover note cancel_lookup [OF step.IH, of W "rq_Payload req"]
    ultimately show ?thesis
      unfolding e(2) Request session_step.simps handle_request_def
      by (simp only: if_split step.IH same [OF same_resources_handlers(1)] same [OF same_resources_handlers(2)]
        same [OF same_resources_handlers(3)] same [OF same_resources_handlers(4)] if_distrib [of snd] snd_conv
        if_distrib [of "lookup_tunnel 0"] if_cancel)
  qed (simp_all add: e(2) same [OF same_resources_tasks(1)] same [OF same_resources_tasks(2)]
      same [OF same_resources_start] same [OF same_resources_ends])
qed

text \<open>(C17) Health reports: for a tunnel with a fixed remote port the server's state of exactly that tunnel
  becomes active or error as the local service answers or not; for a tunnel with remote port 0 (a port
  the server chose) the report names port 0, no tunnel of a reachable session has it, and the server's
  state is never updated.\<close>

theorem health_reports_reach_server:
  assumes laws: "wire_laws W" and reach: "(session_trans cfg S W)\<^sup>*\<^sup>* (new_session sid addr now blank) s"
  shows "let (r, s') = handle_request cfg S W V (last_sent (checkTunnelHealth W dial t c)) s
    in r = Reply True '''' \<and>
       (if tc_RemotePort t = 0 then s' = s
        else case lookup_tunnel (tc_RemotePort t) s of
               None \<Rightarrow> s' = s
             | Some a \<Rightarrow> ss_tunnels s' = (ss_tunnels s)(a := (ss_tunnels s a)
                 \<lparr>ti_State := (if dial (host_port t) then TunnelStateActive else TunnelStateError)\<rparr>))"
  using health_report_read [OF laws, of "if dial (host_port t) then 0 else 2" "tc_RemotePort t"] no_tunnel_zero [OF reach]
  by (auto simp: last_sent_health handle_client_requests handleHealthReportRequest_def update_tunnel_def fun_eq_iff
      Let_def split: option.split)

section \<open>Reloads seen from the server\<close>

text \<open>The server handling a list of requests.\<close>

definition handle_all ::
  "ServerConfig \<Rightarrow> 's semaphore \<Rightarrow> wire_env \<Rightarrow> request_env \<Rightarrow> request list \<Rightarrow> 's session \<Rightarrow> 's session" where
  "handle_all cfg S W V reqs s = foldl (\<lambda>s req. snd (handle_request cfg S W V req s)) s reqs"

lemma cancel_read: "wire_laws W \<Longrightarrow> w_forward W (w_marshal_forward W (''0.0.0.0'', p)) = (''0.0.0.0'', p)"
  by (simp add: wire_laws_def)

lemma cancel_ports:
  assumes "session_inv cfg s"
  shows "snd ` set (ss_open s) = {p. lookup_tunnel p s \<noteq> None}"
  using assms dom_map_of_conv_image_fst [of "co_Tunnels (ss_conn s)"]
  by (auto simp: session_inv_def lookup_tunnel_def dom_def)

lemma handle_cancels:
  assumes "wire_laws W" "session_inv cfg s"
  shows "session_inv cfg (handle_all cfg S W V (map (cancel_request W) hs) s) \<and>
    (\<forall>p. lookup_tunnel p (handle_all cfg S W V (map (cancel_request W) hs) s) =
       (if p \<in> (th_ActualPort \<circ> snd) ` set hs then None else lookup_tunnel p s))"
  using assms(2)
proof (induction hs arbitrary: s)
  case (Cons kv hs)
  let ?s = "snd (handleCancelForwardRequest W (w_marshal_forward W (''0.0.0.0'', th_ActualPort (snd kv))) s)"
  have "lookup_tunnel p ?s = (if p = th_ActualPort (snd kv) then None else lookup_tunnel p s)" for p
    by (auto simp: handleCancelForwardRequest_def cancel_read [OF assms(1)] lookup_tunnel_def delete_conv'
        close_listener_simps Let_def split: option.split)
  with Cons.IH [OF session_inv_cancel [OF Cons.prems, of W "w_marshal_forward W (''0.0.0.0'', th_ActualPort (snd kv))"]]
  show ?case by (simp add: handle_all_def cancel_request_def handle_client_requests)
qed (simp add: handle_all_def)


section \<open>Concrete runs\<close>

lemma demo_session_tunnel: "lookup_tunnel 8080 (demo_run demo_new demo_events_relay) = Some 0"
  by (rule demo_run_state)

lemma web_plain: "plain_tunnel web_tunnel"
  by (simp add: plain_tunnel_def web_tunnel_def ascii_def host_port_def dec_of_int_def dec_of_nat_def base_digits.simps)

theorem user_reaches_service_witness:
  "let s' = snd (handle_request demo_scfg count_sem demo_wire (demo_listen 8080)
       (last_sent (createTunnel demo_wire (Some (3, 8080)) web_tunnel demo_client)) (demo_run demo_new demo_events_relay))
   in handleServerChannel demo_wire (\<lambda>_. True) True
        (channel_payload demo_wire (ti_LocalAddr (ss_tunnels s' 0)) 8080 ''192.0.2.7:50000'') = Relays (host_port web_tunnel)"
proof -
  have "length ''192.0.2.7:50000'' < 2 ^ 32" by simp
  from user_reaches_service [OF demo_wire_laws web_plain demo_session_tunnel this, of demo_scfg count_sem
      "demo_listen 8080" 3 demo_client "\<lambda>_. True" True]
  show ?thesis unfolding Let_def case_prod_beta by (elim conjE) (simp only: if_True)
qed

theorem health_reports_reach_server_witness:
  "fst (handle_request demo_scfg count_sem demo_wire (demo_listen 8080)
     (last_sent (checkTunnelHealth demo_wire (\<lambda>_. False) web_tunnel demo_client))
     (session_step demo_scfg count_sem demo_wire demo_new (Request (demo_forward 8080) (demo_listen 8080)))) = Reply True ''''"
  using health_reports_reach_server [OF demo_wire_laws demo_reach, of "demo_listen 8080" "\<lambda>_. False" web_tunnel demo_client]
  by (simp add: case_prod_beta Let_def)


end
