(* ===== verification/Spec2Isabelle.thy ===== *)
theory Spec2Isabelle
  imports Config Net_Address Authenticator Lru_Cache Auth_Blocker Blocker_Race Host_Key Semaphore
    Gatekeeper Wire_Messages Tunnel_Session Relay Copy_Loop Stream_Path Tunnel_Client Status_Report Control_Socket
    End_To_End
begin

text \<open>
  A verification library of tbore, a reverse tunnel over SSH written in Go (\<open>src/\<close>).

  \<^bold>\<open>The program.\<close> A client (\<open>pkg/client/client.go\<close>) logs in to the server (\<open>pkg/server/server.go\<close>) over SSH
  with a password that is a challenge and its HMAC under a shared token (\<open>pkg/auth/authenticator.go\<close>). The
  server counts the failures of each address and blocks addresses with too many (\<open>pkg/auth/blocker.go\<close>: an
  LRU cache over a bbolt database). On the connection the client asks the server to listen on ports, names
  the tunnels and reports their health; the server opens a channel to the client for every user that
  connects to such a port, and the client joins it to a local service. Both sides have a configuration
  (\<open>pkg/config\<close>), a control socket and commands that talk to it (\<open>tbore.go\<close>); the server prints its state
  (\<open>pkg/server/status.go\<close>), the client reloads its tunnels from the file.

  \<^bold>\<open>The theories\<close>, with what each models. Definitions keep the code's names; a suffix or prefix
  tells apart what the code tells apart by the receiver (\<open>server_Validate\<close>, \<open>client_Validate\<close>).

    \<^item> \<open>Tbore_Base\<close>: 64-bit wrap-around, decimal printing and its inverse, list lemmas, and three
      contracts as locales: \<open>event_machine\<close> (an invariant every event keeps), \<open>simulation\<close> (an abstract step
      that the concrete one implements) and \<open>transition_system\<close> (reachability with an invariant).
    \<^item> \<open>Config\<close>: \<open>config.go\<close> and \<open>errors.go\<close>. The records are the structs, \<open>server_setDefaults\<close> and
      \<open>server_Validate\<close> the methods; the YAML decoder is a parameter. Theorems: the first violated rule is
      reported, the client validation accepts exactly the complete configurations.
    \<^item> \<open>Net_Address\<close>: \<open>net.SplitHostPort\<close>, \<open>net.JoinHostPort\<close> and \<open>ExtractIP\<close>.
    \<^item> \<open>Authenticator\<close>: \<open>authenticator.go\<close>, with SHA-256, HMAC and hexadecimal computed. What the login needs
      of the scheme is the locale \<open>challenge_response\<close>, interpreted on these definitions.
    \<^item> \<open>Lru_Cache\<close>: the type \<open>lruCache\<close>: a map to element pointers, \<open>container/list\<close>, the memory of the
      elements. The invariant ties them; \<open>keyed_cache\<close> is the interface the blocker uses, interpreted on
      them; the cache refines a recency list cut at the capacity (\<open>lru_refines_recency_list\<close>).
    \<^item> \<open>Auth_Blocker\<close>: the type \<open>AuthBlocker\<close>: records on a heap that the cache points to, the
      database behind them. Its view is the record of every address; the abstract policy (\<open>policy_step\<close>) is
      a map of records without cache, heap or database, and \<open>blocker_refines_policy\<close> the refinement. From
      it: the threshold, isolation of addresses, restart, cleaning.
    \<^item> \<open>Blocker_Race\<close>: \<open>RecordFailure\<close> of several goroutines as interleaved steps on one blocker, and the
      failures that are lost.
    \<^item> \<open>Host_Key\<close>: \<open>keys.go\<close> and the client's host key check.
    \<^item> \<open>Semaphore\<close>: the laws of the weighted semaphore.
    \<^item> \<open>Gatekeeper\<close>: \<open>NewServer\<close>, \<open>PasswordCallback\<close>, the handshake and the accept loop. It composes
      \<open>Auth_Blocker\<close>, \<open>Net_Address\<close> and \<open>Authenticator\<close>: what a connection with a sequence of passwords
      does. Theorems: who gets in, the rate limit on guesses over any interleaving, the bound on handlers.
    \<^item> \<open>Wire_Messages\<close>: the JSON structs of the control requests with \<open>encoding/json\<close>'s matching of fields.
    \<^item> \<open>Tunnel_Session\<close>: \<open>ConnectionInfo\<close>, \<open>TunnelInfo\<close>, every request handler, the accept loop of a
      tunnel and the goroutine of a user's connection, as tasks with a phase. \<open>session_step\<close> is one step
      of any goroutine of a session; \<open>session_inv\<close> its invariant (tunnels, listeners, distinct ports).
    \<^item> \<open>Relay\<close>: the per-tunnel limit and counters over all interleavings that cancel no tunnel, that
      all connections can end, and the panic after a port is cancelled and forwarded again.
    \<^item> \<open>Copy_Loop\<close>: \<open>copyBuffer\<close>, \<open>copyBufferRW\<close>, \<open>copyBufferWithTimestamp\<close>, their two instances side by
      side (\<open>duplex_step\<close>), the idle watchdog, the buffer pool with its counters.
    \<^item> \<open>Stream_Path\<close>: the server's and the client's loop of one direction with the SSH channel between them
      (\<open>path_step\<close>): what arrives is a prefix of what was sent, and in the end all of it.
    \<^item> \<open>Tunnel_Client\<close>: \<open>client.go\<close>: the connection round, requests, tunnel creation, health checks, the
      server's channels, reload. \<open>client_step\<close> is one step of any of its loops.
    \<^item> \<open>Status_Report\<close>: \<open>status.go\<close> in full, \<open>GetStatus\<close>, and the table of sessions.
    \<^item> \<open>Control_Socket\<close>: \<open>tbore.go\<close>: the command line, both control sockets and the commands.
    \<^item> \<open>End_To_End\<close>: the client's requests run through the server's handlers: which service a user
      reaches, which tunnel a health report reaches, which ports a reload frees.

  \<^bold>\<open>State and effects.\<close> A struct is a record, passed on explicitly. Where the code shares structs
  through pointers (failure records, tunnels, list elements) the record holds addresses into a heap, so
  that an update through one pointer is seen through the other. Goroutines are steps of an interleaving;
  what a lock covers is one step. A map is a partial function, or an association list with distinct
  keys where the code ranges over it; then the order taken is an argument (\<open>order\<close>) and the theorems hold
  for all. Errors are the left of a sum or \<open>None\<close>, a panic the flag \<open>ss_panic\<close>. Go's 64-bit integers are
  \<open>int\<close> under \<open>int64\<close> where they can wrap, ports 32-bit words, strings byte lists. The clock, random bytes
  and what the operating system answers (bound addresses, dial results) are arguments.

  \<^bold>\<open>Parameters and their laws.\<close> Third-party code is an argument: bbolt with a record's JSON text
  (\<open>store_laws\<close>: a key-value map, and reading back what was written), the semaphore (\<open>sem_laws\<close>), SSH and
  JSON texts (\<open>wire_laws\<close>), key encodings and SSH keys (\<open>key_env\<close>), YAML; a connection's halves have
  \<open>reader_laws\<close> and \<open>writer_laws\<close>, an SSH channel \<open>channel_laws\<close>. Each theorem with
  such a law has a witness with a concrete instance.

  \<^bold>\<open>Termination.\<close> No fuel is used. The copy loops are \<open>partial_function (option)\<close>, as a peer may send for
  ever; \<open>copyBuffer_delivers\<close> proves that they return for every stream that ends or fails. SHA-256's and
  \<open>TrimSpace\<close>'s loops have measures. Endless loops (accept, health, reload, reconnection, cleaning) are
  steps or lists of events, and the theorems speak of all their finite runs.

  \<^bold>\<open>Not modelled.\<close> Build files. What SSH does inside the handshake. Logging, signals, sleeps and the
  creation and permissions of the sockets. \<open>bidirectionalCopy\<close> (\<open>server.go\<close>), which is never called.
  Go's data races on plain maps: a step is atomic, so the theorems on sessions hold for executions
  without such a race. In \<open>Blocker_Race\<close> fetching a record is one step. \<open>Hours\<close>, \<open>Minutes\<close> and
  \<open>Seconds\<close> of a duration are exact, where Go rounds in floating point. Escapes of \<open>text/tabwriter\<close>.
\<close>

end
